theory Spec2Isabelle
  imports Main "HOL-Library.Word"
begin

section \<open>The LDAP server's acceptor loop and shutdown (server.go)\<close>

text \<open>
  The file server.go holds one struct, \<open>Server\<close>, and seven functions: \<open>NewServer\<close>,
  \<open>Handle\<close>, \<open>Serve\<close>, \<open>ServeTLS\<close>, \<open>serve\<close> (the acceptor loop), \<open>newClient\<close> and
  \<open>Stop\<close>. Every call of \<open>Serve\<close> or \<open>ServeTLS\<close> runs a loop in the goroutine that
  made the call, \<open>Stop\<close> is called from other goroutines, and every accepted
  connection gets a goroutine of its own. They share the fields of the one
  \<open>Server\<close>: the listener, the wait group \<open>wg\<close> and the channel \<open>chDone\<close>.

  The embedding is a transition system. A \<open>world\<close> holds the \<open>Server\<close> struct, the
  sockets that have been closed, the program point (with its locals) of every
  goroutine that has called \<open>Serve\<close> or \<open>ServeTLS\<close>, the program point of every
  goroutine that has called \<open>Stop\<close>, and the sessions that were handed to workers.
  An \<open>event\<close> is one statement of one goroutine (or a call of the API); \<open>step\<close>
  executes it, and gives \<open>None\<close> when the statement cannot run there: the goroutine
  is blocked (\<open>Accept\<close> with nothing to return, \<open>wg.Wait\<close> before it is released),
  is at another program point, or the process has died of a panic. \<open>exec\<close> runs a
  schedule, a list of events.

  Nothing in server.go keeps \<open>Serve\<close>, \<open>ServeTLS\<close>, \<open>Stop\<close> or \<open>Handle\<close> from being
  called at any moment and any number of times, so every such call is an event
  that is always possible. A statement that reads or writes a shared field is a
  step of its own; statements that touch nothing another goroutine sees are run
  together with the statement before them.
\<close>

subsection \<open>Values the code handles\<close>

text \<open>
  \<open>time.Duration\<close> is an \<open>int64\<close> of nanoseconds. An instant (\<open>time.Time\<close>) is
  read as its number of nanoseconds since the epoch; \<open>Time.Add\<close> belongs to the Go
  library and is exact on every instant a clock returns.
\<close>

type_synonym Time = int
type_synonym Duration = "64 word"

definition Add :: "Time \<Rightarrow> Duration \<Rightarrow> Time" where
  "Add t d = t + sint d"

text \<open>
  Go's \<open>int\<close> has the size of the target, 32 or 64 bits, and its arithmetic wraps.
  A value of type \<open>int\<close> is kept as the integer it stands for, and \<open>go_int b\<close> brings
  the result of an operation back into the range of a \<open>b\<close>-bit \<open>int\<close>.
\<close>

definition go_int :: "nat \<Rightarrow> int \<Rightarrow> int" where
  "go_int b x = signed_take_bit (b - 1) x"

text \<open>
  Handlers and TLS configurations are values of the caller; the code only stores
  them and compares them with \<open>nil\<close>, so each is named by a number.
\<close>

type_synonym handler = nat
type_synonym tls_Config = nat

text \<open>
  An \<open>error\<close> returned by \<open>Accept\<close>: the one a closed listener gives
  (\<open>net.ErrClosed\<close>), or any other.
\<close>

datatype error = ErrClosed | ErrOther string

text \<open>
  A \<open>net.Conn\<close> is an object of the network library. The model keeps the address of
  the peer, the TLS layers a TLS listener wrapped it in, and the calls the program
  made on it, oldest first.
\<close>

datatype conn_call = SetReadDeadline Time | SetWriteDeadline Time | Close

record conn =
  RemoteAddr :: string
  tls_layers :: "tls_Config option list"
  calls :: "conn_call list"

definition conn_call :: "conn_call \<Rightarrow> conn \<Rightarrow> conn" where
  "conn_call c rw = rw\<lparr>calls := calls rw @ [c]\<rparr>"

text \<open>
  A \<open>net.Listener\<close>: a socket, named by a number, or the listener that
  \<open>tls.NewListener\<close> builds around another one. Closing the wrapper closes the socket
  under it.
\<close>

datatype Listener = TCP nat | TLS Listener "tls_Config option"

fun sock :: "Listener \<Rightarrow> nat" where
  "sock (TCP n) = n"
| "sock (TLS l cfg) = sock l"

fun wrap :: "Listener \<Rightarrow> conn \<Rightarrow> conn" where
  "wrap (TCP n) rw = rw"
| "wrap (TLS l cfg) rw = (wrap l rw)\<lparr>tls_layers := cfg # tls_layers (wrap l rw)\<rparr>"

text \<open>
  A \<open>sync.WaitGroup\<close>, as the library keeps it: the counter, the number of
  goroutines blocked in \<open>Wait\<close>, and the semaphore they sleep on (the number of
  wake-ups granted and not yet taken).
  \<^item> \<open>Add(1)\<close> adds one to the counter.
  \<^item> \<open>Done()\<close> takes one off; it panics on a negative counter; when the counter
    reaches zero with goroutines waiting, it clears their number and grants each a
    wake-up.
  \<^item> \<open>Wait()\<close> returns at once on a zero counter; otherwise it adds the caller to the
    waiting goroutines and sleeps. Woken up, it panics unless counter and waiters
    are both zero (that is the library's check for an \<open>Add\<close> that ran since the
    wake-up was granted), and returns otherwise.
  Each call of \<open>Add\<close> and \<open>Done\<close> is one step, as the library makes it one atomic
  operation on the counter and the waiters. \<open>Add\<close> also panics when it raises the
  counter from zero and finds a waiter; a server that \<open>NewServer\<close> built never has a
  waiter on a zero counter (see \<open>tallied\<close> below), so that branch is left out. The
  counter, an \<open>int32\<close> inside the library, is kept as an integer.
\<close>

record WaitGroup =
  counter :: int
  waiters :: nat
  sema :: nat

definition wg_Add :: "WaitGroup \<Rightarrow> WaitGroup" where
  "wg_Add g = g\<lparr>counter := counter g + 1\<rparr>"

definition wg_Done :: "WaitGroup \<Rightarrow> WaitGroup option" where
  "wg_Done g =
     (if counter g - 1 < 0 then None
      else if counter g - 1 = 0 \<and> waiters g \<noteq> 0
      then Some \<lparr>counter = 0, waiters = 0, sema = sema g + waiters g\<rparr>
      else Some (g\<lparr>counter := counter g - 1\<rparr>))"

subsection \<open>The structs\<close>

text \<open>
  \<open>chDone\<close> is a channel nobody sends on: the only thing that happens to it is
  \<open>close\<close>. Its state is whether it has been closed, and the receive in the loop's
  \<open>select\<close> is ready exactly when it has.
\<close>

record Server =
  Handler :: "handler option"
  TLSConfig :: "tls_Config option"
  ReadTimeout :: Duration
  WriteTimeout :: Duration
  OnNewConnection :: "(conn \<Rightarrow> error option) option"
  listener :: "Listener option"
  wg :: WaitGroup
  chDone :: bool

text \<open>
  The session a connection gets. \<open>srv\<close>, the pointer back to the server, is left
  out: a world has one server. \<open>Numero\<close> is a Go \<open>int\<close>. \<open>br\<close> and \<open>bw\<close> are the
  buffers of the reader and the writer around \<open>rwc\<close>.
\<close>

record client =
  Numero :: int
  rwc :: conn
  br :: "8 word list"
  bw :: "8 word list"

subsection \<open>Goroutines and the world\<close>

text \<open>
  Where a goroutine that called \<open>Serve\<close> or \<open>ServeTLS\<close> stands.
  \<^item> \<open>Deferring\<close>: \<open>s.listener\<close> is written, \<open>serve\<close> is entered, and
    \<open>defer s.listener.Close()\<close> is about to read \<open>s.listener\<close>.
  \<^item> \<open>Entry d\<close>: about to test \<open>s.Handler\<close>. From here on \<open>d\<close> is the listener the
    \<open>defer\<close> captured.
  \<^item> \<open>Select d i\<close>: at the \<open>select\<close> on top of the loop, with the local \<open>i\<close>.
  \<^item> \<open>Closing d\<close>: in the branch of the closed \<open>chDone\<close>, about to read \<open>s.listener\<close>
    for \<open>s.listener.Close()\<close> and to return \<open>nil\<close>.
  \<^item> \<open>AcceptCall d i\<close>: past the \<open>select\<close>, about to read \<open>s.listener\<close> for the call
    of \<open>Accept\<close>.
  \<^item> \<open>Accepting d i h\<close>: blocked in \<open>Accept\<close> on the listener \<open>h\<close> it read.
  \<^item> \<open>WgAdd d i cli\<close>: about to run \<open>s.wg.Add(1)\<close>, with the session \<open>cli\<close>.
  \<^item> \<open>GoServe d i cli\<close>: about to run \<open>go cli.serve()\<close>.
  \<^item> \<open>Returned e\<close>: \<open>serve\<close> has returned \<open>e\<close>.
\<close>

datatype serve_pc =
    Deferring
  | Entry Listener
  | Select Listener int
  | Closing Listener
  | AcceptCall Listener int
  | Accepting Listener int Listener
  | WgAdd Listener int client
  | GoServe Listener int client
  | Returned "error option"

text \<open>
  Where a goroutine that called \<open>Stop\<close> stands: before each of its three
  statements, asleep inside \<open>wg.Wait()\<close>, or back from \<open>Stop\<close>.
\<close>

datatype stop_pc =
    ListenerClose
  | CloseChDone
  | WgWait
  | WgBlocked
  | Stopped

text \<open>What \<open>Logger\<close> was asked to print.\<close>

datatype log_line =
    LogPanic string
  | LogAccepted int string
  | LogClosing
  | LogAllClosed

text \<open>
  The world. \<open>int_size\<close> is the size of \<open>int\<close> on the target. \<open>loops\<close> and \<open>stoppers\<close>
  hold the goroutines in the order of their calls; a goroutine is named by its
  place there. \<open>accepted\<close> and \<open>dispatched\<close> are histories: the connections \<open>Accept\<close>
  returned and the sessions given to \<open>go cli.serve()\<close>, each with the loop it
  belongs to, oldest first. \<open>running\<close> are the workers that have not ended,
  \<open>finished\<close> the sessions of those that have.
\<close>

record world =
  srv :: Server
  int_size :: nat
  closed_socks :: "nat set"
  loops :: "serve_pc list"
  stoppers :: "stop_pc list"
  accepted :: "(nat \<times> conn) list"
  dispatched :: "(nat \<times> client) list"
  running :: "client list"
  finished :: "client list"
  logged :: "log_line list"
  crash :: "string option"

text \<open>
  What the network offers to a blocked \<open>Accept\<close>: a peer that connects from an
  address, or a failure.
\<close>

datatype arrival = Connects string | Fails error

text \<open>
  The events. \<open>Serve_step k\<close> runs the next statement of loop \<open>k\<close>, \<open>Stop_step j\<close>
  the next statement of the \<open>j\<close>-th caller of \<open>Stop\<close>. \<open>Accept_returns k a t1 t2\<close> is
  the return of the \<open>Accept\<close> loop \<open>k\<close> is blocked in, with what the network offered,
  followed by the statements of the loop up to the session's ordinal; \<open>t1\<close> and
  \<open>t2\<close> are what the two calls of \<open>time.Now()\<close> read. \<open>Worker_exit n\<close> ends the
  \<open>n\<close>-th running worker.
\<close>

datatype event =
    Call_Handle "handler option"
  | Call_Serve Listener
  | Call_ServeTLS Listener
  | Serve_step nat
  | Accept_returns nat arrival Time Time
  | Call_Stop
  | Stop_step nat
  | Worker_exit nat

subsection \<open>The functions of server.go\<close>

text \<open>\<open>NewServer\<close>: every field zero, \<open>chDone\<close> a fresh (open) channel.\<close>

definition NewServer :: Server where
  "NewServer = \<lparr>Handler = None, TLSConfig = None, ReadTimeout = 0, WriteTimeout = 0,
     OnNewConnection = None, listener = None,
     wg = \<lparr>counter = 0, waiters = 0, sema = 0\<rparr>, chDone = False\<rparr>"

text \<open>
  The unexported fields of a server nobody has served or stopped yet are as
  \<open>NewServer\<close> left them; the exported ones are the caller's to set.
\<close>

definition fresh :: "Server \<Rightarrow> bool" where
  "fresh s = (listener s = None \<and> wg s = \<lparr>counter = 0, waiters = 0, sema = 0\<rparr> \<and> \<not> chDone s)"

definition boot :: "nat \<Rightarrow> Server \<Rightarrow> world" where
  "boot b s = \<lparr>srv = s, int_size = b, closed_socks = {}, loops = [], stoppers = [],
     accepted = [], dispatched = [], running = [], finished = [], logged = [],
     crash = None\<rparr>"

text \<open>
  A panic nobody recovers ends the process: the world keeps the message and no
  event runs after it.
\<close>

definition panic :: "string \<Rightarrow> world \<Rightarrow> world" where
  "panic msg w = w\<lparr>crash := Some msg\<rparr>"

definition listener_Close :: "Listener \<Rightarrow> world \<Rightarrow> world" where
  "listener_Close l w = w\<lparr>closed_socks := insert (sock l) (closed_socks w)\<rparr>"

text \<open>
  \<open>Accept\<close> on a listener whose socket is closed fails with the closed error,
  whatever the network offers; otherwise it returns what the network offers, a
  connection wrapped in the listener's TLS layers.
\<close>

definition listener_Accept :: "Listener \<Rightarrow> arrival \<Rightarrow> world \<Rightarrow> error + conn" where
  "listener_Accept l a w =
     (if sock l \<in> closed_socks w then Inl ErrClosed
      else case a of
             Fails e \<Rightarrow> Inl e
           | Connects addr \<Rightarrow> Inr (wrap l \<lparr>RemoteAddr = addr, tls_layers = [], calls = []\<rparr>))"

text \<open>The program point of loop \<open>k\<close>, and of the \<open>j\<close>-th caller of \<open>Stop\<close>, changes.\<close>

definition at_loop :: "nat \<Rightarrow> serve_pc \<Rightarrow> world \<Rightarrow> world" where
  "at_loop k pc w = w\<lparr>loops := (loops w)[k := pc]\<rparr>"

definition at_stop :: "nat \<Rightarrow> stop_pc \<Rightarrow> world \<Rightarrow> world" where
  "at_stop j pc w = w\<lparr>stoppers := (stoppers w)[j := pc]\<rparr>"

text \<open>\<open>Handle\<close>, lines 40 to 45.\<close>

definition Handle :: "handler option \<Rightarrow> world \<Rightarrow> world" where
  "Handle h w =
     (if Handler (srv w) \<noteq> None then panic ''LDAP: multiple Handler registrations'' w
      else w\<lparr>srv := (srv w)\<lparr>Handler := h\<rparr>\<rparr>)"

text \<open>
  \<open>Serve\<close> and \<open>ServeTLS\<close>, lines 50 to 58: the call writes \<open>s.listener\<close> and enters
  \<open>serve\<close> in a goroutine of its own, the next in \<open>loops\<close>.
\<close>

definition Serve :: "Listener \<Rightarrow> world \<Rightarrow> world" where
  "Serve l w = w\<lparr>srv := (srv w)\<lparr>listener := Some l\<rparr>, loops := loops w @ [Deferring]\<rparr>"

definition ServeTLS :: "Listener \<Rightarrow> world \<Rightarrow> world" where
  "ServeTLS l w = Serve (TLS l (TLSConfig (srv w))) w"

text \<open>\<open>newClient\<close>, lines 105 to 113: the session and the error, which is \<open>nil\<close>.\<close>

definition newClient :: "Server \<Rightarrow> conn \<Rightarrow> client \<times> error option" where
  "newClient s c = (\<lparr>Numero = 0, rwc = c, br = [], bw = []\<rparr>, None)"

text \<open>
  The statements of \<open>serve\<close>, lines 61 to 101, but for the return of \<open>Accept\<close>.
  \<^item> \<open>defer s.listener.Close()\<close> reads \<open>s.listener\<close> (a \<open>nil\<close> there panics).
  \<^item> Without a handler, \<open>Logger.Panicln\<close> prints and panics (the contract of the
    standard logger), and the deferred \<open>Close\<close> runs on the way out. Otherwise
    \<open>i := 0\<close> and the loop starts.
  \<^item> The \<open>select\<close>: with \<open>chDone\<close> closed the loop goes on to close the listener and
    return, otherwise to \<open>Accept\<close>.
  \<^item> \<open>s.listener.Close(); return nil\<close>, and the deferred \<open>Close\<close>.
  \<^item> The call of \<open>s.listener.Accept()\<close> reads \<open>s.listener\<close> and blocks on it.
  \<^item> \<open>s.wg.Add(1)\<close>.
  \<^item> \<open>go cli.serve()\<close>: a new worker runs the session, and the loop starts over.
\<close>

definition serve_step :: "nat \<Rightarrow> world \<Rightarrow> world option" where
  "serve_step k w =
     (if k < length (loops w)
      then (case loops w ! k of
              Deferring \<Rightarrow>
                Some (case listener (srv w) of
                        None \<Rightarrow> panic ''nil pointer dereference'' w
                      | Some d \<Rightarrow> at_loop k (Entry d) w)
            | Entry d \<Rightarrow>
                Some (if Handler (srv w) = None
                      then panic ''No LDAP Request Handler defined''
                             (listener_Close d
                                (w\<lparr>logged := logged w
                                     @ [LogPanic ''No LDAP Request Handler defined'']\<rparr>))
                      else at_loop k (Select d 0) w)
            | Select d i \<Rightarrow>
                Some (if chDone (srv w) then at_loop k (Closing d) w
                      else at_loop k (AcceptCall d i) w)
            | Closing d \<Rightarrow>
                Some (case listener (srv w) of
                        None \<Rightarrow> panic ''nil pointer dereference'' (listener_Close d w)
                      | Some cur \<Rightarrow>
                          at_loop k (Returned None) (listener_Close d (listener_Close cur w)))
            | AcceptCall d i \<Rightarrow>
                Some (case listener (srv w) of
                        None \<Rightarrow> panic ''nil pointer dereference'' (listener_Close d w)
                      | Some h \<Rightarrow> at_loop k (Accepting d i h) w)
            | WgAdd d i cli \<Rightarrow>
                Some (at_loop k (GoServe d i cli) (w\<lparr>srv := (srv w)\<lparr>wg := wg_Add (wg (srv w))\<rparr>\<rparr>))
            | GoServe d i cli \<Rightarrow>
                Some (at_loop k (Select d i)
                        (w\<lparr>dispatched := dispatched w @ [(k, cli)], running := running w @ [cli]\<rparr>))
            | _ \<Rightarrow> None)
      else None)"

text \<open>
  The deadlines of lines 83 to 88, on the connection just accepted.
\<close>

definition set_deadlines :: "Server \<Rightarrow> Time \<Rightarrow> Time \<Rightarrow> conn \<Rightarrow> conn" where
  "set_deadlines s t1 t2 rw =
     (let rw1 = (if ReadTimeout s \<noteq> 0
                 then conn_call (SetReadDeadline (Add t1 (ReadTimeout s))) rw else rw)
      in if WriteTimeout s \<noteq> 0
         then conn_call (SetWriteDeadline (Add t2 (WriteTimeout s))) rw1 else rw1)"

text \<open>
  The return of \<open>Accept\<close>, lines 78 to 97, in the loop that is blocked on the
  listener \<open>h\<close>. An error ends \<open>serve\<close> with that error (the deferred \<open>Close\<close> runs). A
  connection gets its deadlines and its session; were \<open>newClient\<close> to fail, the loop
  would start over; otherwise \<open>i = i + 1\<close> in the target's \<open>int\<close>, the session takes
  \<open>i\<close> as its \<open>Numero\<close>, and a line is logged.
\<close>

definition accept_returns :: "nat \<Rightarrow> arrival \<Rightarrow> Time \<Rightarrow> Time \<Rightarrow> world \<Rightarrow> world option" where
  "accept_returns k a t1 t2 w =
     (if k < length (loops w)
      then (case loops w ! k of
              Accepting d i h \<Rightarrow>
                (case listener_Accept h a w of
                   Inl err \<Rightarrow> Some (at_loop k (Returned (Some err)) (listener_Close d w))
                 | Inr rw \<Rightarrow>
                     (case newClient (srv w) (set_deadlines (srv w) t1 t2 rw) of
                        (cli, err) \<Rightarrow>
                          Some (if err \<noteq> None
                                then at_loop k (Select d i)
                                       (w\<lparr>accepted := accepted w @ [(k, rw)]\<rparr>)
                                else (let i' = go_int (int_size w) (i + 1)
                                      in at_loop k (WgAdd d i' (cli\<lparr>Numero := i'\<rparr>))
                                           (w\<lparr>accepted := accepted w @ [(k, rw)],
                                              logged := logged w
                                                @ [LogAccepted i' (RemoteAddr (rwc cli))]\<rparr>)))))
            | _ \<Rightarrow> None)
      else None)"

text \<open>
  \<open>Stop\<close>, lines 125 to 131. The call starts a caller, the next in \<open>stoppers\<close>; then
  its statements:
  \<^item> \<open>_ = s.listener.Close()\<close>, which reads \<open>s.listener\<close> (a \<open>nil\<close> there panics);
  \<^item> \<open>close(s.chDone)\<close>, a panic when the channel is closed already, and the first
    line of the log;
  \<^item> \<open>s.wg.Wait()\<close>: on a zero counter it returns, and the second line is logged;
    otherwise the caller joins the waiters and sleeps;
  \<^item> asleep in \<open>Wait\<close>, the caller goes on when a wake-up is granted: it takes it,
    and panics unless the counter and the waiters are both zero.
\<close>

definition Stop :: "world \<Rightarrow> world" where
  "Stop w = w\<lparr>stoppers := stoppers w @ [ListenerClose]\<rparr>"

definition stop_step :: "nat \<Rightarrow> world \<Rightarrow> world option" where
  "stop_step j w =
     (if j < length (stoppers w)
      then (case stoppers w ! j of
              ListenerClose \<Rightarrow>
                Some (case listener (srv w) of
                        None \<Rightarrow> panic ''nil pointer dereference'' w
                      | Some l \<Rightarrow> at_stop j CloseChDone (listener_Close l w))
            | CloseChDone \<Rightarrow>
                Some (if chDone (srv w) then panic ''close of closed channel'' w
                      else at_stop j WgWait
                             (w\<lparr>srv := (srv w)\<lparr>chDone := True\<rparr>,
                                logged := logged w @ [LogClosing]\<rparr>))
            | WgWait \<Rightarrow>
                Some (if counter (wg (srv w)) = 0
                      then at_stop j Stopped (w\<lparr>logged := logged w @ [LogAllClosed]\<rparr>)
                      else at_stop j WgBlocked
                             (w\<lparr>srv := (srv w)
                                  \<lparr>wg := (wg (srv w))\<lparr>waiters := waiters (wg (srv w)) + 1\<rparr>\<rparr>\<rparr>))
            | WgBlocked \<Rightarrow>
                (if sema (wg (srv w)) = 0 then None
                 else Some
                   (let w1 = w\<lparr>srv := (srv w)
                                 \<lparr>wg := (wg (srv w))\<lparr>sema := sema (wg (srv w)) - 1\<rparr>\<rparr>\<rparr>
                    in if counter (wg (srv w)) \<noteq> 0 \<or> waiters (wg (srv w)) \<noteq> 0
                       then panic ''sync: WaitGroup is reused before previous Wait has returned'' w1
                       else at_stop j Stopped (w1\<lparr>logged := logged w @ [LogAllClosed]\<rparr>)))
            | Stopped \<Rightarrow> None)
      else None)"

text \<open>
  Modelled from the spec: the body of a worker (\<open>client.serve\<close>) is not in
  server.go. The specification says of a worker that it "runs the Handler against
  it and, on completion, closes the connection and decrements the counter", and
  that it "decrements the live-worker counter as its last act". The end of the
  \<open>n\<close>-th running worker is that: \<open>Close\<close> on its connection, then \<open>wg.Done()\<close>.
\<close>

definition worker_exit :: "nat \<Rightarrow> world \<Rightarrow> world option" where
  "worker_exit n w =
     (if n < length (running w)
      then (let c = running w ! n;
                w1 = w\<lparr>running := take n (running w) @ drop (Suc n) (running w),
                       finished := finished w @ [c\<lparr>rwc := conn_call Close (rwc c)\<rparr>]\<rparr>
            in Some (case wg_Done (wg (srv w)) of
                       None \<Rightarrow> panic ''sync: negative WaitGroup counter''
                                 (w1\<lparr>srv := (srv w)\<lparr>wg := (wg (srv w))
                                       \<lparr>counter := counter (wg (srv w)) - 1\<rparr>\<rparr>\<rparr>)
                     | Some g \<Rightarrow> w1\<lparr>srv := (srv w)\<lparr>wg := g\<rparr>\<rparr>))
      else None)"

subsection \<open>Steps and schedules\<close>

definition step :: "event \<Rightarrow> world \<Rightarrow> world option" where
  "step ev w =
     (if crash w \<noteq> None then None
      else case ev of
             Call_Handle h \<Rightarrow> Some (Handle h w)
           | Call_Serve l \<Rightarrow> Some (Serve l w)
           | Call_ServeTLS l \<Rightarrow> Some (ServeTLS l w)
           | Serve_step k \<Rightarrow> serve_step k w
           | Accept_returns k a t1 t2 \<Rightarrow> accept_returns k a t1 t2 w
           | Call_Stop \<Rightarrow> Some (Stop w)
           | Stop_step j \<Rightarrow> stop_step j w
           | Worker_exit n \<Rightarrow> worker_exit n w)"

fun exec :: "event list \<Rightarrow> world \<Rightarrow> world option" where
  "exec [] w = Some w"
| "exec (ev # evs) w = (case step ev w of None \<Rightarrow> None | Some w' \<Rightarrow> exec evs w')"

subsection \<open>Notions the properties are stated with\<close>

text \<open>Events that register a handler, bind a listener, or belong to \<open>Stop\<close>.\<close>

fun registers :: "event \<Rightarrow> bool" where
  "registers (Call_Handle (Some h)) = True"
| "registers ev = False"

fun rebinds :: "event \<Rightarrow> bool" where
  "rebinds (Call_Serve l) = True"
| "rebinds (Call_ServeTLS l) = True"
| "rebinds ev = False"

fun stops :: "event \<Rightarrow> bool" where
  "stops Call_Stop = True"
| "stops (Stop_step j) = True"
| "stops ev = False"

text \<open>
  A loop that has not reached its \<open>select\<close> for the first time, or has returned.
\<close>

fun at_rest :: "serve_pc \<Rightarrow> bool" where
  "at_rest Deferring = True"
| "at_rest (Entry d) = True"
| "at_rest (Returned e) = True"
| "at_rest pc = False"

text \<open>
  The session a loop holds between \<open>Accept\<close> and \<open>go\<close>, and whether the counter
  already counts it (after \<open>wg.Add(1)\<close>, before \<open>go\<close>).
\<close>

fun pending :: "serve_pc \<Rightarrow> client list" where
  "pending (WgAdd d i c) = [c]"
| "pending (GoServe d i c) = [c]"
| "pending pc = []"

fun counted_unstarted :: "serve_pc \<Rightarrow> int" where
  "counted_unstarted (GoServe d i c) = 1"
| "counted_unstarted pc = 0"

text \<open>The number of sessions the counter counts whose worker has not ended.\<close>

definition outstanding :: "world \<Rightarrow> int" where
  "outstanding w = sum_list (map counted_unstarted (loops w)) + int (length (running w))"

text \<open>
  A world is tallied when the counter is that number, nobody waits on a zero
  counter, and every dispatched session is running or has finished.
\<close>

definition tallied :: "world \<Rightarrow> bool" where
  "tallied w =
     (counter (wg (srv w)) = outstanding w
      \<and> (counter (wg (srv w)) = 0 \<longrightarrow> waiters (wg (srv w)) = 0)
      \<and> length (dispatched w) = length (running w) + length (finished w))"

text \<open>
  Of loop \<open>k\<close>: the connections its \<open>Accept\<close> returned, the sessions it dispatched,
  the session it holds, and all the sessions it built, in the order it built
  them.
\<close>

definition accepted_by :: "nat \<Rightarrow> world \<Rightarrow> conn list" where
  "accepted_by k w = map snd (filter (\<lambda>p. fst p = k) (accepted w))"

definition by_loop :: "nat \<Rightarrow> world \<Rightarrow> client list" where
  "by_loop k w = map snd (filter (\<lambda>p. fst p = k) (dispatched w))"

definition in_hand :: "nat \<Rightarrow> world \<Rightarrow> client list" where
  "in_hand k w = (if k < length (loops w) then pending (loops w ! k) else [])"

definition sessions :: "nat \<Rightarrow> world \<Rightarrow> client list" where
  "sessions k w = by_loop k w @ in_hand k w"

text \<open>
  How the local \<open>i\<close> of a loop stands to the number \<open>n\<close> of sessions the loop has
  dispatched, on a target whose \<open>int\<close> has \<open>b\<close> bits.
\<close>

fun ordinal_at :: "nat \<Rightarrow> serve_pc \<Rightarrow> int \<Rightarrow> bool" where
  "ordinal_at b Deferring n = (n = 0)"
| "ordinal_at b (Entry d) n = (n = 0)"
| "ordinal_at b (Select d i) n = (i = go_int b n)"
| "ordinal_at b (AcceptCall d i) n = (i = go_int b n)"
| "ordinal_at b (Accepting d i h) n = (i = go_int b n)"
| "ordinal_at b (WgAdd d i c) n = (i = go_int b (n + 1) \<and> Numero c = i)"
| "ordinal_at b (GoServe d i c) n = (i = go_int b (n + 1) \<and> Numero c = i)"
| "ordinal_at b pc n = True"

text \<open>
  Loop \<open>k\<close> is numbered when the sessions it dispatched have the ordinals 1, 2, 3
  and so on, as the target's \<open>int\<close> has them, and its local \<open>i\<close> is the last of
  them. It is recorded when the connections its \<open>Accept\<close> returned are those of
  the sessions it built. A place in \<open>loops\<close> no loop has taken yet has neither
  connections nor sessions.
\<close>

definition numbered :: "nat \<Rightarrow> world \<Rightarrow> bool" where
  "numbered k w =
     (map Numero (by_loop k w) = map (go_int (int_size w)) [1..int (length (by_loop k w))]
      \<and> (if k < length (loops w)
         then ordinal_at (int_size w) (loops w ! k) (int (length (by_loop k w)))
         else by_loop k w = []))"

definition recorded :: "nat \<Rightarrow> world \<Rightarrow> bool" where
  "recorded k w =
     (map RemoteAddr (accepted_by k w) = map (\<lambda>c. RemoteAddr (rwc c)) (sessions k w)
      \<and> (length (loops w) \<le> k \<longrightarrow> accepted_by k w = [] \<and> by_loop k w = []))"

text \<open>
  A loop that is blocked in \<open>Accept\<close> is blocked on a listener whose socket is in
  \<open>S\<close>. A world is quiet when that holds of every loop for the closed sockets, and
  the listener the server is bound to, if any, is closed as well.
\<close>

fun blocked_within :: "nat set \<Rightarrow> serve_pc \<Rightarrow> bool" where
  "blocked_within S (Accepting d i h) = (sock h \<in> S)"
| "blocked_within S pc = True"

definition bound_closed :: "world \<Rightarrow> bool" where
  "bound_closed w =
     (case listener (srv w) of None \<Rightarrow> True | Some cur \<Rightarrow> sock cur \<in> closed_socks w)"

definition quiet :: "world \<Rightarrow> bool" where
  "quiet w = (bound_closed w \<and> list_all (blocked_within (closed_socks w)) (loops w))"

text \<open>What the statements of \<open>Stop\<close> that a caller has run have established.\<close>

fun stop_progress :: "stop_pc \<Rightarrow> Server \<Rightarrow> bool" where
  "stop_progress ListenerClose s = True"
| "stop_progress CloseChDone s = (listener s \<noteq> None)"
| "stop_progress WgWait s = (listener s \<noteq> None \<and> chDone s)"
| "stop_progress WgBlocked s = (listener s \<noteq> None \<and> chDone s)"
| "stop_progress Stopped s = (listener s \<noteq> None \<and> chDone s)"

subsection \<open>Worlds and schedules to run the properties on\<close>

text \<open>
  A server with handler 0 and read timeout 50 ms (write timeout unset) on a
  64-bit target: before anything ran, and with one loop, bound to socket 0 and
  blocked in its first \<open>Accept\<close>.
\<close>

definition configured :: world where
  "configured = boot 64 (NewServer\<lparr>Handler := Some 0, ReadTimeout := 50000000\<rparr>)"

definition blocked_in_Accept :: world where
  "blocked_in_Accept =
     configured\<lparr>srv := (srv configured)\<lparr>listener := Some (TCP 0)\<rparr>,
                loops := [Accepting (TCP 0) 0 (TCP 0)]\<rparr>"

text \<open>
  Schedules: \<open>Serve\<close> up to the first \<open>Accept\<close> of loop 0; a peer that connects to
  loop 0 and is dispatched; loop 0 from its \<open>select\<close> to the next \<open>Accept\<close>; the first
  \<open>Stop\<close> up to its \<open>wg.Wait()\<close>.
\<close>

definition start_serving :: "event list" where
  "start_serving = [Call_Serve (TCP 0), Serve_step 0, Serve_step 0, Serve_step 0, Serve_step 0]"

definition one_peer :: "event list" where
  "one_peer = [Accept_returns 0 (Connects ''peer'') 1000 2000, Serve_step 0, Serve_step 0]"

definition next_Accept :: "event list" where
  "next_Accept = [Serve_step 0, Serve_step 0]"

definition stop_until_Wait :: "event list" where
  "stop_until_Wait = [Call_Stop, Stop_step 0, Stop_step 0]"

section \<open>Properties\<close>

subsection \<open>Auxiliary facts\<close>

lemmas defs = step_def serve_step_def accept_returns_def stop_step_def Stop_def Serve_def
  ServeTLS_def Handle_def worker_exit_def panic_def listener_Close_def listener_Accept_def
  newClient_def set_deadlines_def conn_call_def Add_def boot_def NewServer_def
  at_loop_def at_stop_def wg_Add_def wg_Done_def go_int_def
  configured_def blocked_in_Accept_def start_serving_def one_peer_def next_Accept_def
  stop_until_Wait_def

text \<open>Every way a step can be taken, with the world it leads to.\<close>

lemma step_cases [consumes 1, case_names Handle Handle_panic Serve ServeTLS Defer_nil Defer
    No_handler Loop Select_done Select_open Close_nil Close_ret Call_nil Call Add Go
    Accept_err Accept_conn Stop LClose_nil LClose Signal_panic Signal Wait_zero Wait_block
    Wake_panic Wake Exit_panic Exit_release Exit]:
  assumes "step ev w = Some w'"
  obtains
    (Handle) h where "ev = Call_Handle h" "crash w = None" "Handler (srv w) = None"
      "w' = w\<lparr>srv := (srv w)\<lparr>Handler := h\<rparr>\<rparr>"
  | (Handle_panic) h where "ev = Call_Handle h" "crash w = None" "Handler (srv w) \<noteq> None"
      "w' = w\<lparr>crash := Some ''LDAP: multiple Handler registrations''\<rparr>"
  | (Serve) l where "ev = Call_Serve l" "crash w = None"
      "w' = w\<lparr>srv := (srv w)\<lparr>listener := Some l\<rparr>, loops := loops w @ [Deferring]\<rparr>"
  | (ServeTLS) l where "ev = Call_ServeTLS l" "crash w = None"
      "w' = w\<lparr>srv := (srv w)\<lparr>listener := Some (TLS l (TLSConfig (srv w)))\<rparr>,
               loops := loops w @ [Deferring]\<rparr>"
  | (Defer_nil) k where "ev = Serve_step k" "crash w = None" "k < length (loops w)"
      "loops w ! k = Deferring" "listener (srv w) = None"
      "w' = w\<lparr>crash := Some ''nil pointer dereference''\<rparr>"
  | (Defer) k d where "ev = Serve_step k" "crash w = None" "k < length (loops w)"
      "loops w ! k = Deferring" "listener (srv w) = Some d"
      "w' = w\<lparr>loops := (loops w)[k := Entry d]\<rparr>"
  | (No_handler) k d where "ev = Serve_step k" "crash w = None" "k < length (loops w)"
      "loops w ! k = Entry d" "Handler (srv w) = None"
      "w' = w\<lparr>logged := logged w @ [LogPanic ''No LDAP Request Handler defined''],
               closed_socks := insert (sock d) (closed_socks w),
               crash := Some ''No LDAP Request Handler defined''\<rparr>"
  | (Loop) k d where "ev = Serve_step k" "crash w = None" "k < length (loops w)"
      "loops w ! k = Entry d" "Handler (srv w) \<noteq> None"
      "w' = w\<lparr>loops := (loops w)[k := Select d 0]\<rparr>"
  | (Select_done) k d i where "ev = Serve_step k" "crash w = None" "k < length (loops w)"
      "loops w ! k = Select d i" "chDone (srv w)"
      "w' = w\<lparr>loops := (loops w)[k := Closing d]\<rparr>"
  | (Select_open) k d i where "ev = Serve_step k" "crash w = None" "k < length (loops w)"
      "loops w ! k = Select d i" "\<not> chDone (srv w)"
      "w' = w\<lparr>loops := (loops w)[k := AcceptCall d i]\<rparr>"
  | (Close_nil) k d where "ev = Serve_step k" "crash w = None" "k < length (loops w)"
      "loops w ! k = Closing d" "listener (srv w) = None"
      "w' = w\<lparr>closed_socks := insert (sock d) (closed_socks w),
               crash := Some ''nil pointer dereference''\<rparr>"
  | (Close_ret) k d cur where "ev = Serve_step k" "crash w = None" "k < length (loops w)"
      "loops w ! k = Closing d" "listener (srv w) = Some cur"
      "w' = w\<lparr>closed_socks := insert (sock d) (insert (sock cur) (closed_socks w)),
               loops := (loops w)[k := Returned None]\<rparr>"
  | (Call_nil) k d i where "ev = Serve_step k" "crash w = None" "k < length (loops w)"
      "loops w ! k = AcceptCall d i" "listener (srv w) = None"
      "w' = w\<lparr>closed_socks := insert (sock d) (closed_socks w),
               crash := Some ''nil pointer dereference''\<rparr>"
  | (Call) k d i h where "ev = Serve_step k" "crash w = None" "k < length (loops w)"
      "loops w ! k = AcceptCall d i" "listener (srv w) = Some h"
      "w' = w\<lparr>loops := (loops w)[k := Accepting d i h]\<rparr>"
  | (Add) k d i c where "ev = Serve_step k" "crash w = None" "k < length (loops w)"
      "loops w ! k = WgAdd d i c"
      "w' = w\<lparr>srv := (srv w)\<lparr>wg := (wg (srv w))\<lparr>counter := counter (wg (srv w)) + 1\<rparr>\<rparr>,
               loops := (loops w)[k := GoServe d i c]\<rparr>"
  | (Go) k d i c where "ev = Serve_step k" "crash w = None" "k < length (loops w)"
      "loops w ! k = GoServe d i c"
      "w' = w\<lparr>dispatched := dispatched w @ [(k, c)], running := running w @ [c],
               loops := (loops w)[k := Select d i]\<rparr>"
  | (Accept_err) k d i h a t1 t2 err where "ev = Accept_returns k a t1 t2" "crash w = None"
      "k < length (loops w)" "loops w ! k = Accepting d i h"
      "listener_Accept h a w = Inl err"
      "w' = w\<lparr>closed_socks := insert (sock d) (closed_socks w),
               loops := (loops w)[k := Returned (Some err)]\<rparr>"
  | (Accept_conn) k d i h a t1 t2 rw where "ev = Accept_returns k a t1 t2" "crash w = None"
      "k < length (loops w)" "loops w ! k = Accepting d i h"
      "listener_Accept h a w = Inr rw"
      "w' = w\<lparr>accepted := accepted w @ [(k, rw)],
               logged := logged w @ [LogAccepted (go_int (int_size w) (i + 1)) (RemoteAddr rw)],
               loops := (loops w)[k := WgAdd d (go_int (int_size w) (i + 1))
                 \<lparr>Numero = go_int (int_size w) (i + 1),
                  rwc = set_deadlines (srv w) t1 t2 rw, br = [], bw = []\<rparr>]\<rparr>"
  | (Stop) "ev = Call_Stop" "crash w = None"
      "w' = w\<lparr>stoppers := stoppers w @ [ListenerClose]\<rparr>"
  | (LClose_nil) j where "ev = Stop_step j" "crash w = None" "j < length (stoppers w)"
      "stoppers w ! j = ListenerClose" "listener (srv w) = None"
      "w' = w\<lparr>crash := Some ''nil pointer dereference''\<rparr>"
  | (LClose) j cur where "ev = Stop_step j" "crash w = None" "j < length (stoppers w)"
      "stoppers w ! j = ListenerClose" "listener (srv w) = Some cur"
      "w' = w\<lparr>closed_socks := insert (sock cur) (closed_socks w),
               stoppers := (stoppers w)[j := CloseChDone]\<rparr>"
  | (Signal_panic) j where "ev = Stop_step j" "crash w = None" "j < length (stoppers w)"
      "stoppers w ! j = CloseChDone" "chDone (srv w)"
      "w' = w\<lparr>crash := Some ''close of closed channel''\<rparr>"
  | (Signal) j where "ev = Stop_step j" "crash w = None" "j < length (stoppers w)"
      "stoppers w ! j = CloseChDone" "\<not> chDone (srv w)"
      "w' = w\<lparr>srv := (srv w)\<lparr>chDone := True\<rparr>, logged := logged w @ [LogClosing],
               stoppers := (stoppers w)[j := WgWait]\<rparr>"
  | (Wait_zero) j where "ev = Stop_step j" "crash w = None" "j < length (stoppers w)"
      "stoppers w ! j = WgWait" "counter (wg (srv w)) = 0"
      "w' = w\<lparr>logged := logged w @ [LogAllClosed], stoppers := (stoppers w)[j := Stopped]\<rparr>"
  | (Wait_block) j where "ev = Stop_step j" "crash w = None" "j < length (stoppers w)"
      "stoppers w ! j = WgWait" "counter (wg (srv w)) \<noteq> 0"
      "w' = w\<lparr>srv := (srv w)\<lparr>wg := (wg (srv w))\<lparr>waiters := waiters (wg (srv w)) + 1\<rparr>\<rparr>,
               stoppers := (stoppers w)[j := WgBlocked]\<rparr>"
  | (Wake_panic) j where "ev = Stop_step j" "crash w = None" "j < length (stoppers w)"
      "stoppers w ! j = WgBlocked" "sema (wg (srv w)) \<noteq> 0"
      "counter (wg (srv w)) \<noteq> 0 \<or> waiters (wg (srv w)) \<noteq> 0"
      "w' = w\<lparr>srv := (srv w)\<lparr>wg := (wg (srv w))\<lparr>sema := sema (wg (srv w)) - 1\<rparr>\<rparr>,
               crash := Some ''sync: WaitGroup is reused before previous Wait has returned''\<rparr>"
  | (Wake) j where "ev = Stop_step j" "crash w = None" "j < length (stoppers w)"
      "stoppers w ! j = WgBlocked" "sema (wg (srv w)) \<noteq> 0"
      "counter (wg (srv w)) = 0" "waiters (wg (srv w)) = 0"
      "w' = w\<lparr>srv := (srv w)\<lparr>wg := (wg (srv w))\<lparr>sema := sema (wg (srv w)) - 1\<rparr>\<rparr>,
               logged := logged w @ [LogAllClosed], stoppers := (stoppers w)[j := Stopped]\<rparr>"
  | (Exit_panic) n where "ev = Worker_exit n" "crash w = None" "n < length (running w)"
      "counter (wg (srv w)) \<le> 0"
      "w' = w\<lparr>srv := (srv w)\<lparr>wg := (wg (srv w))\<lparr>counter := counter (wg (srv w)) - 1\<rparr>\<rparr>,
               running := take n (running w) @ drop (Suc n) (running w),
               finished := finished w @ [(running w ! n)\<lparr>rwc := conn_call Close (rwc (running w ! n))\<rparr>],
               crash := Some ''sync: negative WaitGroup counter''\<rparr>"
  | (Exit_release) n where "ev = Worker_exit n" "crash w = None" "n < length (running w)"
      "counter (wg (srv w)) = 1" "waiters (wg (srv w)) \<noteq> 0"
      "w' = w\<lparr>srv := (srv w)\<lparr>wg := \<lparr>counter = 0, waiters = 0,
                                     sema = sema (wg (srv w)) + waiters (wg (srv w))\<rparr>\<rparr>,
               running := take n (running w) @ drop (Suc n) (running w),
               finished := finished w @ [(running w ! n)\<lparr>rwc := conn_call Close (rwc (running w ! n))\<rparr>]\<rparr>"
  | (Exit) n where "ev = Worker_exit n" "crash w = None" "n < length (running w)"
      "0 < counter (wg (srv w))" "counter (wg (srv w)) = 1 \<longrightarrow> waiters (wg (srv w)) = 0"
      "w' = w\<lparr>srv := (srv w)\<lparr>wg := (wg (srv w))\<lparr>counter := counter (wg (srv w)) - 1\<rparr>\<rparr>,
               running := take n (running w) @ drop (Suc n) (running w),
               finished := finished w @ [(running w ! n)\<lparr>rwc := conn_call Close (rwc (running w ! n))\<rparr>]\<rparr>"
proof (cases ev)
  case (Call_Handle h)
  with assms Handle [of h] Handle_panic [of h] show thesis
    by (auto simp: step_def Handle_def panic_def split: if_splits)
next
  case (Call_Serve l)
  with assms Serve [of l] show thesis
    by (auto simp: step_def Serve_def split: if_splits)
next
  case (Call_ServeTLS l)
  with assms ServeTLS [of l] show thesis
    by (auto simp: step_def Serve_def ServeTLS_def split: if_splits)
next
  case (Serve_step k)
  from assms Serve_step have c: "crash w = None" and s: "serve_step k w = Some w'"
    and k: "k < length (loops w)"
    by (auto simp: step_def serve_step_def split: if_splits)
  show thesis
  proof (cases "loops w ! k")
    case Deferring
    with s c k Serve_step Defer_nil [of k] Defer [of k] show thesis
      by (auto simp: serve_step_def panic_def at_loop_def split: option.splits)
  next
    case (Entry d)
    with s c k Serve_step No_handler [of k d] Loop [of k d] show thesis
      by (auto simp: serve_step_def panic_def listener_Close_def at_loop_def split: if_splits)
  next
    case (Select d i)
    with s c k Serve_step Select_done [of k d i] Select_open [of k d i] show thesis
      by (auto simp: serve_step_def at_loop_def split: if_splits)
  next
    case (Closing d)
    with s c k Serve_step Close_nil [of k d] Close_ret [of k d] show thesis
      by (auto simp: serve_step_def panic_def listener_Close_def at_loop_def
          split: option.splits)
  next
    case (AcceptCall d i)
    with s c k Serve_step Call_nil [of k d i] Call [of k d i] show thesis
      by (auto simp: serve_step_def panic_def listener_Close_def at_loop_def
          split: option.splits)
  next
    case (WgAdd d i cli)
    with s c k Serve_step Add [of k d i cli] show thesis
      by (auto simp: serve_step_def at_loop_def wg_Add_def)
  next
    case (GoServe d i cli)
    with s c k Serve_step Go [of k d i cli] show thesis
      by (auto simp: serve_step_def at_loop_def)
  qed (use s k in \<open>simp_all add: serve_step_def\<close>)
next
  case (Accept_returns k a t1 t2)
  from assms Accept_returns have c: "crash w = None" and s: "accept_returns k a t1 t2 w = Some w'"
    and k: "k < length (loops w)"
    by (auto simp: step_def accept_returns_def split: if_splits)
  show thesis
  proof (cases "loops w ! k")
    case (Accepting d i h)
    show thesis
    proof (cases "listener_Accept h a w")
      case (Inl err)
      with s c k Accept_returns Accepting Accept_err [of k a t1 t2 d i h err] show thesis
        by (auto simp: accept_returns_def listener_Close_def at_loop_def)
    next
      case (Inr rw)
      with s c k Accept_returns Accepting Accept_conn [of k a t1 t2 d i h rw] show thesis
        by (auto simp: accept_returns_def newClient_def set_deadlines_def conn_call_def
            at_loop_def Let_def)
    qed
  qed (use s k in \<open>simp_all add: accept_returns_def\<close>)
next
  case Call_Stop
  with assms Stop show thesis
    by (auto simp: step_def Stop_def split: if_splits)
next
  case (Stop_step j)
  from assms Stop_step have c: "crash w = None" and s: "stop_step j w = Some w'"
    and j: "j < length (stoppers w)"
    by (auto simp: step_def stop_step_def split: if_splits)
  show thesis
  proof (cases "stoppers w ! j")
    case ListenerClose
    with s c j Stop_step LClose_nil [of j] LClose [of j] show thesis
      by (auto simp: stop_step_def panic_def listener_Close_def at_stop_def
          split: option.splits)
  next
    case CloseChDone
    with s c j Stop_step Signal_panic [of j] Signal [of j] show thesis
      by (auto simp: stop_step_def panic_def at_stop_def split: if_splits)
  next
    case WgWait
    with s c j Stop_step Wait_zero [of j] Wait_block [of j] show thesis
      by (auto simp: stop_step_def at_stop_def split: if_splits)
  next
    case WgBlocked
    with s c j Stop_step Wake_panic [of j] Wake [of j] show thesis
      by (auto simp: stop_step_def panic_def at_stop_def Let_def split: if_splits)
  qed (use s j in \<open>simp_all add: stop_step_def\<close>)
next
  case (Worker_exit n)
  from assms Worker_exit have c: "crash w = None" and s: "worker_exit n w = Some w'"
    and n: "n < length (running w)"
    by (auto simp: step_def worker_exit_def split: if_splits)
  consider "counter (wg (srv w)) \<le> 0"
    | "counter (wg (srv w)) = 1" "waiters (wg (srv w)) \<noteq> 0"
    | "0 < counter (wg (srv w))" "counter (wg (srv w)) = 1 \<longrightarrow> waiters (wg (srv w)) = 0"
    by fastforce
  then show thesis
  proof cases
    case 1
    with s c n Worker_exit Exit_panic [of n] show thesis
      by (auto simp: worker_exit_def wg_Done_def panic_def Let_def)
  next
    case 2
    with s c n Worker_exit Exit_release [of n] show thesis
      by (auto simp: worker_exit_def wg_Done_def Let_def)
  next
    case 3
    with s c n Worker_exit Exit [of n] show thesis
      by (auto simp: worker_exit_def wg_Done_def Let_def)
  qed
qed

lemma exec_Cons_Some:
  assumes "exec (ev # evs) w = Some w'"
  obtains w1 where "step ev w = Some w1" and "exec evs w1 = Some w'"
  using assms by (auto split: option.splits)

lemma exec_append:
  "exec (xs @ ys) w = (case exec xs w of None \<Rightarrow> None | Some w' \<Rightarrow> exec ys w')"
  by (induction xs arbitrary: w) (auto split: option.splits)

lemma RemoteAddr_wrap: "RemoteAddr (wrap l rw) = RemoteAddr rw"
  by (induction l) simp_all

lemma calls_wrap: "calls (wrap l rw) = calls rw"
  by (induction l) simp_all

lemma RemoteAddr_set_deadlines: "RemoteAddr (set_deadlines s t1 t2 rw) = RemoteAddr rw"
  by (simp add: set_deadlines_def conn_call_def Let_def)

lemma calls_set_deadlines:
  "calls (set_deadlines s t1 t2 rw) = calls rw
     @ (if ReadTimeout s = 0 then [] else [SetReadDeadline (t1 + sint (ReadTimeout s))])
     @ (if WriteTimeout s = 0 then [] else [SetWriteDeadline (t2 + sint (WriteTimeout s))])"
  by (simp add: set_deadlines_def conn_call_def Add_def Let_def)

lemma set_deadlines_hook:
  "set_deadlines (s\<lparr>OnNewConnection := hook\<rparr>) t1 t2 rw = set_deadlines s t1 t2 rw"
  by (simp add: set_deadlines_def)

lemma list_all_update:
  "list_all P xs \<Longrightarrow> P y \<Longrightarrow> list_all P (xs[k := y])"
  using set_update_subset_insert [of xs k y] by (auto simp: list_all_iff)

lemma list_all_nth:
  "list_all P xs \<Longrightarrow> k < length xs \<Longrightarrow> P (xs ! k)"
  by (simp add: list_all_length)

subsection \<open>Registering a handler\<close>





subsection \<open>Serving without a handler\<close>

lemma no_Handler_step:
  assumes "step ev w = Some w'" and "Handler (srv w) = None" and "list_all at_rest (loops w)"
    and "\<not> registers ev"
  shows "Handler (srv w') = None \<and> list_all at_rest (loops w') \<and> accepted w' = accepted w
       \<and> dispatched w' = dispatched w"
  using assms
  by (cases rule: step_cases)
    (auto simp: list_all_update elim: registers.elims dest: list_all_nth)

lemma no_Handler_exec:
  "Handler (srv w) = None \<Longrightarrow> list_all at_rest (loops w) \<Longrightarrow>
   list_all (\<lambda>e. \<not> registers e) evs \<Longrightarrow>
   exec evs w = Some w' \<Longrightarrow> accepted w' = accepted w \<and> dispatched w' = dispatched w"
proof (induction evs arbitrary: w)
  case Nil
  then show ?case by simp
next
  case (Cons ev evs)
  from Cons.prems(4) obtain w1 where s: "step ev w = Some w1" and e: "exec evs w1 = Some w'"
    by (rule exec_Cons_Some)
  from Cons.prems have nr: "\<not> registers ev" and rest: "list_all (\<lambda>e. \<not> registers e) evs"
    by simp_all
  from no_Handler_step [OF s Cons.prems(1,2) nr] Cons.IH [OF _ _ rest e]
  show ?case by simp
qed

text \<open>
  C6. On a server without a handler, none of whose loops has reached its \<open>select\<close>,
  \<open>Serve\<close> and \<open>ServeTLS\<close> panic at the test of \<open>s.Handler\<close>, the first thing \<open>serve\<close>
  does after its \<open>defer\<close>: the
  listener is closed by the deferred call, no connection has been accepted, and the
  process is dead. However the other goroutines are scheduled after the call, as
  long as nobody registers a handler in between, no connection is accepted and no
  session dispatched.
\<close>

theorem serve_refuses_without_Handler:
  assumes "Handler (srv w) = None" and "list_all at_rest (loops w)" and "crash w = None"
    and "bind = Call_Serve l \<or> bind = Call_ServeTLS l"
  shows "(\<exists>w'. exec [bind, Serve_step (length (loops w)), Serve_step (length (loops w))] w
              = Some w'
            \<and> crash w' = Some ''No LDAP Request Handler defined''
            \<and> sock l \<in> closed_socks w' \<and> accepted w' = accepted w
            \<and> (\<forall>ev. step ev w' = None))
    \<and> (\<forall>evs w'. list_all (\<lambda>e. \<not> registers e) evs \<and> exec (bind # evs) w = Some w'
          \<longrightarrow> accepted w' = accepted w \<and> dispatched w' = dispatched w)"
proof -
  from assms have first: "\<exists>w'. exec [bind, Serve_step (length (loops w)),
              Serve_step (length (loops w))] w = Some w'
            \<and> crash w' = Some ''No LDAP Request Handler defined''
            \<and> sock l \<in> closed_socks w' \<and> accepted w' = accepted w
            \<and> (\<forall>ev. step ev w' = None)"
    by (auto simp: step_def Serve_def ServeTLS_def serve_step_def panic_def listener_Close_def
        at_loop_def)
  have later: "\<forall>evs w'. list_all (\<lambda>e. \<not> registers e) evs \<and> exec (bind # evs) w = Some w'
          \<longrightarrow> accepted w' = accepted w \<and> dispatched w' = dispatched w"
  proof (intro allI impI)
    fix evs w'
    assume a: "list_all (\<lambda>e. \<not> registers e) evs \<and> exec (bind # evs) w = Some w'"
    from assms obtain w1 where b: "step bind w = Some w1" and w1: "Handler (srv w1) = None"
      "list_all at_rest (loops w1)" "accepted w1 = accepted w" "dispatched w1 = dispatched w"
      by (auto simp: step_def Serve_def ServeTLS_def)
    from a b have "exec evs w1 = Some w'" by simp
    from no_Handler_exec [OF w1(1,2) _ this] a w1(3,4)
    show "accepted w' = accepted w \<and> dispatched w' = dispatched w" by simp
  qed
  from first later show ?thesis by (rule conjI)
qed

theorem serve_refuses_without_Handler_witness:
  "Handler (srv (boot 64 NewServer)) = None \<and> list_all at_rest (loops (boot 64 NewServer))
   \<and> crash (boot 64 NewServer) = None
   \<and> map_option crash (exec [Call_Serve (TCP 0), Serve_step 0, Serve_step 0] (boot 64 NewServer))
       = Some (Some ''No LDAP Request Handler defined'')
   \<and> map_option closed_socks
        (exec [Call_Serve (TCP 0), Serve_step 0, Serve_step 0] (boot 64 NewServer)) = Some {0}
   \<and> exec [Call_Serve (TCP 0), Serve_step 0, Serve_step 0,
           Accept_returns 0 (Connects ''peer'') 0 0] (boot 64 NewServer) = None
   \<and> list_all (\<lambda>e. \<not> registers e) [Call_Stop, Stop_step 0, Stop_step 0, Stop_step 0]
   \<and> map_option accepted
        (exec [Call_ServeTLS (TCP 0), Call_Stop, Stop_step 0, Stop_step 0, Stop_step 0]
           (boot 64 NewServer)) = Some []"
  using serve_refuses_without_Handler [of "boot 64 NewServer" "Call_Serve (TCP 0)" "TCP 0"]
    serve_refuses_without_Handler [of "boot 64 NewServer" "Call_ServeTLS (TCP 0)" "TCP 0"]
  by (simp add: defs)

subsection \<open>A failing \<open>Accept\<close>\<close>

lemma nil_only_from_Closing:
  assumes "step ev v = Some v'" and "n < length (loops v)"
    and "loops v' ! n = Returned None" and "loops v ! n \<noteq> Returned None"
  shows "ev = Serve_step n \<and> (\<exists>c. loops v ! n = Closing c)"
  using assms
  by (cases rule: step_cases) (auto simp: nth_list_update nth_append split: if_splits)

lemma Closing_only_from_Select:
  assumes "step ev v = Some v'" and "n < length (loops v)"
    and "loops v' ! n = Closing c" and "loops v ! n \<noteq> Closing c"
  shows "ev = Serve_step n \<and> chDone (srv v) \<and> (\<exists>j. loops v ! n = Select c j)"
  using assms
  by (cases rule: step_cases) (auto simp: nth_list_update nth_append split: if_splits)

text \<open>
  C1, as the code has it. Whatever makes \<open>Accept\<close> fail, \<open>serve\<close> returns that
  error: the error of a listener that \<open>Stop\<close> closed is returned like any other, and
  then no connection has been accepted or dispatched. \<open>serve\<close> returns \<open>nil\<close> from one
  place only, the branch of the \<open>select\<close> that is taken when \<open>chDone\<close> is found
  closed.
\<close>

theorem accept_failure_is_returned:
  assumes "crash w = None" and "k < length (loops w)" and "loops w ! k = Accepting d i h"
  shows "(\<forall>e. listener_Accept h a w = Inl e \<longrightarrow>
            (\<exists>w'. step (Accept_returns k a t1 t2) w = Some w'
                 \<and> loops w' ! k = Returned (Some e)
                 \<and> accepted w' = accepted w \<and> dispatched w' = dispatched w))
    \<and> (sock h \<in> closed_socks w \<longrightarrow>
            (\<exists>w'. step (Accept_returns k a t1 t2) w = Some w'
                 \<and> loops w' ! k = Returned (Some ErrClosed)))
    \<and> (\<forall>ev v v' n. step ev v = Some v' \<and> n < length (loops v)
            \<and> loops v' ! n = Returned None \<and> loops v ! n \<noteq> Returned None
          \<longrightarrow> ev = Serve_step n \<and> (\<exists>c. loops v ! n = Closing c))
    \<and> (\<forall>ev v v' n c. step ev v = Some v' \<and> n < length (loops v)
            \<and> loops v' ! n = Closing c \<and> loops v ! n \<noteq> Closing c
          \<longrightarrow> ev = Serve_step n \<and> chDone (srv v) \<and> (\<exists>j. loops v ! n = Select c j))"
proof -
  have err: "\<forall>e. listener_Accept h a w = Inl e \<longrightarrow>
            (\<exists>w'. step (Accept_returns k a t1 t2) w = Some w'
                 \<and> loops w' ! k = Returned (Some e)
                 \<and> accepted w' = accepted w \<and> dispatched w' = dispatched w)"
    using assms by (simp add: step_def accept_returns_def listener_Close_def at_loop_def)
  have closed: "sock h \<in> closed_socks w \<longrightarrow>
            (\<exists>w'. step (Accept_returns k a t1 t2) w = Some w'
                 \<and> loops w' ! k = Returned (Some ErrClosed))"
    using assms
    by (simp add: step_def accept_returns_def listener_Close_def listener_Accept_def at_loop_def)
  have nil: "\<forall>ev v v' n. step ev v = Some v' \<and> n < length (loops v)
            \<and> loops v' ! n = Returned None \<and> loops v ! n \<noteq> Returned None
          \<longrightarrow> ev = Serve_step n \<and> (\<exists>c. loops v ! n = Closing c)"
    using nil_only_from_Closing by blast
  have sel: "\<forall>ev v v' n c. step ev v = Some v' \<and> n < length (loops v)
            \<and> loops v' ! n = Closing c \<and> loops v ! n \<noteq> Closing c
          \<longrightarrow> ev = Serve_step n \<and> chDone (srv v) \<and> (\<exists>j. loops v ! n = Select c j)"
    using Closing_only_from_Select by blast
  from err closed nil sel show ?thesis by (intro conjI)
qed

theorem accept_failure_is_returned_witness:
  "exec start_serving configured = Some blocked_in_Accept
   \<and> crash blocked_in_Accept = None \<and> 0 < length (loops blocked_in_Accept)
   \<and> loops blocked_in_Accept ! 0 = Accepting (TCP 0) 0 (TCP 0)
   \<and> listener_Accept (TCP 0) (Fails (ErrOther ''too many open files'')) blocked_in_Accept
       = Inl (ErrOther ''too many open files'')
   \<and> map_option loops
        (step (Accept_returns 0 (Fails (ErrOther ''too many open files'')) 0 0) blocked_in_Accept)
       = Some [Returned (Some (ErrOther ''too many open files''))]
   \<and> sock (TCP 0) \<in> closed_socks (listener_Close (TCP 0) blocked_in_Accept)
   \<and> map_option loops
        (step (Accept_returns 0 (Connects ''peer'') 0 0)
           (listener_Close (TCP 0) blocked_in_Accept))
       = Some [Returned (Some ErrClosed)]
   \<and> map_option loops
        (exec [Call_Stop, Stop_step 0, Stop_step 0, Serve_step 0, Serve_step 0]
           (blocked_in_Accept\<lparr>loops := [Select (TCP 0) 0]\<rparr>)) = Some [Returned None]"
proof -
  have concrete: ?thesis
    by (simp add: defs)
  have h: "crash blocked_in_Accept = None" "0 < length (loops blocked_in_Accept)"
    "loops blocked_in_Accept ! 0 = Accepting (TCP 0) 0 (TCP 0)"
    by (simp_all add: defs)
  have h': "crash (listener_Close (TCP 0) blocked_in_Accept) = None"
    "0 < length (loops (listener_Close (TCP 0) blocked_in_Accept))"
    "loops (listener_Close (TCP 0) blocked_in_Accept) ! 0 = Accepting (TCP 0) 0 (TCP 0)"
    by (simp_all add: defs)
  from accept_failure_is_returned [OF h, of "Fails (ErrOther ''too many open files'')" 0 0]
    accept_failure_is_returned [OF h', of "Connects ''peer''" 0 0]
  show ?thesis
    by - (rule concrete)
qed

text \<open>
  C1, as the specification has it, fails: the loop is blocked in \<open>Accept\<close>, \<open>Stop\<close>
  closes the listener, and \<open>serve\<close> returns the closed error, not \<open>nil\<close>.
\<close>

theorem closed_listener_error_is_returned:
  "map_option loops
     (exec (start_serving @ [Call_Stop, Stop_step 0, Stop_step 0,
            Accept_returns 0 (Fails ErrClosed) 0 0]) configured)
     = Some [Returned (Some ErrClosed)]
   \<and> map_option loops
     (exec (start_serving @ [Call_Stop, Stop_step 0, Stop_step 0,
            Accept_returns 0 (Fails ErrClosed) 0 0]) configured)
     \<noteq> Some [Returned None]"
  by (simp add: defs)

subsection \<open>An accepted connection\<close>

lemma accepted_path:
  fixes addr :: string
  assumes "crash w = None" and "k < length (loops w)" and "loops w ! k = Accepting d i h"
    and "sock h \<notin> closed_socks w"
    and "rw = wrap h \<lparr>RemoteAddr = addr, tls_layers = [], calls = []\<rparr>"
    and "n = go_int (int_size w) (i + 1)"
    and "cli = \<lparr>Numero = n, rwc = set_deadlines (srv w) t1 t2 rw, br = [], bw = []\<rparr>"
  shows "step (Accept_returns k (Connects addr) t1 t2) w =
           Some (w\<lparr>accepted := accepted w @ [(k, rw)],
                   logged := logged w @ [LogAccepted n addr],
                   loops := (loops w)[k := WgAdd d n cli]\<rparr>)"
    and "exec [Accept_returns k (Connects addr) t1 t2, Serve_step k, Serve_step k] w =
           Some (w\<lparr>accepted := accepted w @ [(k, rw)],
                   logged := logged w @ [LogAccepted n addr],
                   srv := (srv w)\<lparr>wg := (wg (srv w))\<lparr>counter := counter (wg (srv w)) + 1\<rparr>\<rparr>,
                   dispatched := dispatched w @ [(k, cli)], running := running w @ [cli],
                   loops := (loops w)[k := Select d n]\<rparr>)"
proof -
  have ra: "RemoteAddr (set_deadlines (srv w) t1 t2 rw) = addr"
    by (simp add: set_deadlines_def conn_call_def assms(5) RemoteAddr_wrap Let_def)
  show 1: "step (Accept_returns k (Connects addr) t1 t2) w =
           Some (w\<lparr>accepted := accepted w @ [(k, rw)],
                   logged := logged w @ [LogAccepted n addr],
                   loops := (loops w)[k := WgAdd d n cli]\<rparr>)"
    using assms(1-4) ra
    by (simp add: step_def accept_returns_def listener_Accept_def newClient_def at_loop_def
        Let_def assms(5,6,7))
  show "exec [Accept_returns k (Connects addr) t1 t2, Serve_step k, Serve_step k] w =
           Some (w\<lparr>accepted := accepted w @ [(k, rw)],
                   logged := logged w @ [LogAccepted n addr],
                   srv := (srv w)\<lparr>wg := (wg (srv w))\<lparr>counter := counter (wg (srv w)) + 1\<rparr>\<rparr>,
                   dispatched := dispatched w @ [(k, cli)], running := running w @ [cli],
                   loops := (loops w)[k := Select d n]\<rparr>)"
    using assms(1,2) by (simp add: 1) (simp add: step_def serve_step_def at_loop_def wg_Add_def)
qed

text \<open>
  C2, as the code has it. The loop does not look at \<open>OnNewConnection\<close>: whatever the
  field holds, a connection that \<open>Accept\<close> returned is left open, gets the next
  ordinal, is counted and handed to a worker, and the loop goes back to its \<open>select\<close>.
\<close>

theorem hook_not_consulted:
  assumes "crash w = None" and "k < length (loops w)" and "loops w ! k = Accepting d i h"
    and "sock h \<notin> closed_socks w"
  shows "\<exists>cli w'. exec [Accept_returns k (Connects addr) t1 t2, Serve_step k, Serve_step k]
                    (w\<lparr>srv := (srv w)\<lparr>OnNewConnection := hook\<rparr>\<rparr>) = Some w'
           \<and> Numero cli = go_int (int_size w) (i + 1) \<and> RemoteAddr (rwc cli) = addr
           \<and> Close \<notin> set (calls (rwc cli))
           \<and> dispatched w' = dispatched w @ [(k, cli)] \<and> running w' = running w @ [cli]
           \<and> counter (wg (srv w')) = counter (wg (srv w)) + 1
           \<and> loops w' ! k = Select d (go_int (int_size w) (i + 1))"
proof -
  let ?w = "w\<lparr>srv := (srv w)\<lparr>OnNewConnection := hook\<rparr>\<rparr>"
  let ?rw = "wrap h \<lparr>RemoteAddr = addr, tls_layers = [], calls = []\<rparr>"
  let ?n = "go_int (int_size w) (i + 1)"
  let ?cli = "\<lparr>Numero = ?n, rwc = set_deadlines (srv w) t1 t2 ?rw, br = [], bw = []\<rparr>"
  have "crash ?w = None" "k < length (loops ?w)" "loops ?w ! k = Accepting d i h"
    "sock h \<notin> closed_socks ?w"
    using assms by simp_all
  from accepted_path(2) [OF this refl refl refl, of addr t1 t2] assms(2)
  have "\<exists>w'. exec [Accept_returns k (Connects addr) t1 t2, Serve_step k, Serve_step k] ?w
             = Some w'
           \<and> dispatched w' = dispatched w @ [(k, ?cli)] \<and> running w' = running w @ [?cli]
           \<and> counter (wg (srv w')) = counter (wg (srv w)) + 1 \<and> loops w' ! k = Select d ?n"
    by (simp add: set_deadlines_hook)
  moreover have "Numero ?cli = ?n" "RemoteAddr (rwc ?cli) = addr"
    "Close \<notin> set (calls (rwc ?cli))"
    by (simp_all add: calls_set_deadlines calls_wrap set_deadlines_def conn_call_def
        RemoteAddr_wrap Let_def)
  ultimately show ?thesis by blast
qed

theorem hook_not_consulted_witness:
  "crash blocked_in_Accept = None \<and> 0 < length (loops blocked_in_Accept)
   \<and> loops blocked_in_Accept ! 0 = Accepting (TCP 0) 0 (TCP 0)
   \<and> sock (TCP 0) \<notin> closed_socks blocked_in_Accept
   \<and> map_option (\<lambda>w. (map (\<lambda>p. Numero (snd p)) (dispatched w),
                        map (\<lambda>c. Close \<in> set (calls (rwc c))) (running w),
                        counter (wg (srv w)), loops w))
        (exec [Accept_returns 0 (Connects ''peer'') 0 0, Serve_step 0, Serve_step 0]
           (blocked_in_Accept\<lparr>srv := (srv blocked_in_Accept)
              \<lparr>OnNewConnection := Some (\<lambda>c. Some (ErrOther ''rejected''))\<rparr>\<rparr>))
       = Some ([1], [False], 1, [Select (TCP 0) 1])"
proof -
  have concrete: ?thesis
    by (simp add: defs)
  have h: "crash blocked_in_Accept = None" "0 < length (loops blocked_in_Accept)"
    "loops blocked_in_Accept ! 0 = Accepting (TCP 0) 0 (TCP 0)"
    "sock (TCP 0) \<notin> closed_socks blocked_in_Accept"
    by (simp_all add: defs)
  from hook_not_consulted [OF h, of "''peer''" 0 0 "Some (\<lambda>c. Some (ErrOther ''rejected''))"]
  show ?thesis
    by - (rule concrete)
qed

text \<open>
  C2, as the specification has it, fails: with a hook that rejects every
  connection, the first connection is still dispatched, as session 1, with no call
  of \<open>Close\<close> on it, and the counter counts it.
\<close>

theorem rejected_connection_is_dispatched:
  "map_option (\<lambda>w. (map (\<lambda>p. Numero (snd p)) (dispatched w),
                     map (\<lambda>p. calls (rwc (snd p))) (dispatched w), counter (wg (srv w))))
     (exec (start_serving
            @ [Accept_returns 0 (Connects ''peer'') 0 0, Serve_step 0, Serve_step 0])
        (boot 64 (NewServer\<lparr>Handler := Some 0,
                 OnNewConnection := Some (\<lambda>c. Some (ErrOther ''rejected''))\<rparr>)))
     = Some ([1], [[]], 1)"
  by (simp add: defs)

text \<open>
  C8. The connection \<open>Accept\<close> returned gets, before anything else is done with it,
  one \<open>SetReadDeadline\<close> when \<open>ReadTimeout\<close> is not zero and one \<open>SetWriteDeadline\<close>
  when \<open>WriteTimeout\<close> is not zero, each at the clock's reading plus the timeout,
  and no call at all for a timeout that is zero. The session handed to the worker
  holds the connection with exactly these calls.
\<close>

theorem deadlines_set_at_accept:
  assumes "crash w = None" and "k < length (loops w)" and "loops w ! k = Accepting d i h"
    and "sock h \<notin> closed_socks w"
  shows "\<exists>cli w1 w'. step (Accept_returns k (Connects addr) t1 t2) w = Some w1
           \<and> loops w1 ! k = WgAdd d (go_int (int_size w) (i + 1)) cli
           \<and> calls (rwc cli) =
               (if ReadTimeout (srv w) = 0 then []
                else [SetReadDeadline (t1 + sint (ReadTimeout (srv w)))])
               @ (if WriteTimeout (srv w) = 0 then []
                  else [SetWriteDeadline (t2 + sint (WriteTimeout (srv w)))])
           \<and> exec [Serve_step k, Serve_step k] w1 = Some w'
           \<and> dispatched w' = dispatched w @ [(k, cli)] \<and> running w' = running w @ [cli]"
proof -
  let ?rw = "wrap h \<lparr>RemoteAddr = addr, tls_layers = [], calls = []\<rparr>"
  let ?n = "go_int (int_size w) (i + 1)"
  let ?cli = "\<lparr>Numero = ?n, rwc = set_deadlines (srv w) t1 t2 ?rw, br = [], bw = []\<rparr>"
  let ?w1 = "w\<lparr>accepted := accepted w @ [(k, ?rw)], logged := logged w @ [LogAccepted ?n addr],
          loops := (loops w)[k := WgAdd d ?n ?cli]\<rparr>"
  note p = accepted_path [OF assms refl refl refl, of addr t1 t2]
  have c: "calls (rwc ?cli) =
               (if ReadTimeout (srv w) = 0 then []
                else [SetReadDeadline (t1 + sint (ReadTimeout (srv w)))])
               @ (if WriteTimeout (srv w) = 0 then []
                  else [SetWriteDeadline (t2 + sint (WriteTimeout (srv w)))])"
    by (simp add: calls_set_deadlines calls_wrap)
  from assms(2) have at: "loops ?w1 ! k = WgAdd d ?n ?cli" by simp
  from p(2) have "\<exists>w'. exec [Serve_step k, Serve_step k] ?w1 = Some w'
      \<and> dispatched w' = dispatched w @ [(k, ?cli)] \<and> running w' = running w @ [?cli]"
    by (simp add: p(1))
  then obtain w' where w': "exec [Serve_step k, Serve_step k] ?w1 = Some w'"
    "dispatched w' = dispatched w @ [(k, ?cli)]" "running w' = running w @ [?cli]" by blast
  from p(1) at c w' show ?thesis by blast
qed

theorem deadlines_set_at_accept_witness:
  "crash blocked_in_Accept = None \<and> 0 < length (loops blocked_in_Accept)
   \<and> loops blocked_in_Accept ! 0 = Accepting (TCP 0) 0 (TCP 0)
   \<and> sock (TCP 0) \<notin> closed_socks blocked_in_Accept
   \<and> ReadTimeout (srv blocked_in_Accept) = 50000000
   \<and> WriteTimeout (srv blocked_in_Accept) = 0
   \<and> map_option (\<lambda>w. map (\<lambda>p. calls (rwc (snd p))) (dispatched w))
        (exec [Accept_returns 0 (Connects ''peer'') 1000 2000, Serve_step 0, Serve_step 0]
           blocked_in_Accept)
       = Some [[SetReadDeadline 50001000]]"
proof -
  have concrete: ?thesis
    by (simp add: defs)
  have h: "crash blocked_in_Accept = None" "0 < length (loops blocked_in_Accept)"
    "loops blocked_in_Accept ! 0 = Accepting (TCP 0) 0 (TCP 0)"
    "sock (TCP 0) \<notin> closed_socks blocked_in_Accept"
    by (simp_all add: defs)
  from deadlines_set_at_accept [OF h, of "''peer''" 1000 2000]
  show ?thesis
    by - (rule concrete)
qed

subsection \<open>Invariants of schedules\<close>

lemma exec_invariant:
  assumes "\<And>ev v v'. step ev v = Some v' \<Longrightarrow> P v \<Longrightarrow> P v'"
    and "P w" and "exec evs w = Some w'"
  shows "P w'"
  using assms(2,3)
proof (induction evs arbitrary: w)
  case Nil
  then show ?case by simp
next
  case (Cons ev evs)
  from Cons.prems(2) obtain w1 where s: "step ev w = Some w1" and e: "exec evs w1 = Some w'"
    by (rule exec_Cons_Some)
  from Cons.IH [OF assms(1) [OF s Cons.prems(1)] e] show ?case .
qed

lemma int_size_step:
  assumes "step ev w = Some w'"
  shows "int_size w' = int_size w"
  using assms by (cases rule: step_cases) simp_all

lemma int_size_exec:
  assumes "exec evs w = Some w'"
  shows "int_size w' = int_size w"
  using int_size_step exec_invariant [where P = "\<lambda>v. int_size v = int_size w", OF _ refl assms]
  by simp

subsection \<open>The target's \<open>int\<close>\<close>

lemma go_int_zero: "go_int b 0 = 0"
  by (simp add: go_int_def)

lemma go_int_succ: "go_int b (go_int b n + 1) = go_int b (n + 1)"
  unfolding go_int_def
  by (metis signed_take_bit_add signed_take_bit_signed_take_bit min.idem)

lemma go_int_succ': "go_int b (1 + go_int b n) = go_int b (1 + n)"
  using go_int_succ [of b n] by (simp add: add.commute)

lemma go_int_small: "0 \<le> x \<Longrightarrow> x < 2 ^ (b - 1) \<Longrightarrow> go_int b x = x"
proof -
  assume "0 \<le> x" and "x < 2 ^ (b - 1)"
  moreover have "- (2 ^ (b - 1)) \<le> (0::int)" by simp
  ultimately show ?thesis
    unfolding go_int_def by (intro signed_take_bit_int_eq_self) simp_all
qed

lemma upto_snoc: "[1..1 + int n] = [1..int n] @ [1 + int n]"
  by (simp add: upto_rec2)

lemma strict_upto: "sorted_wrt (<) [i..j]"
  by (simp add: strict_sorted_iff)

lemma go_int_upto:
  assumes "int n < 2 ^ (b - 1)"
  shows "map (go_int b) [1..int n] = [1..int n]"
proof (rule map_idI)
  fix x
  assume "x \<in> set [1..int n]"
  then have x: "0 \<le> x" "x \<le> int n" by simp_all
  with assms have "x < 2 ^ (b - 1)" by linarith
  with x(1) show "go_int b x = x" by (rule go_int_small)
qed

subsection \<open>Sessions\<close>

lemma numbered_step:
  assumes "step ev w = Some w'" and "numbered k w"
  shows "numbered k w'"
  using assms
  by (cases rule: step_cases)
    (auto simp: numbered_def by_loop_def nth_list_update nth_append upto_snoc go_int_succ
      go_int_succ' go_int_zero add.commute split: if_splits)

lemma numbered_exec:
  assumes "exec evs (boot b s) = Some w"
  shows "numbered k w"
proof -
  have "numbered k (boot b s)" by (simp add: numbered_def by_loop_def boot_def)
  from exec_invariant [where P = "numbered k", OF numbered_step this assms] show ?thesis .
qed

lemma recorded_step:
  assumes "step ev w = Some w'" and "recorded k w"
  shows "recorded k w'"
  using assms
  by (cases rule: step_cases)
    (auto simp: recorded_def sessions_def by_loop_def accepted_by_def in_hand_def
      nth_list_update nth_append RemoteAddr_set_deadlines split: if_splits)

lemma recorded_exec:
  assumes "exec evs (boot b s) = Some w"
  shows "recorded k w"
proof -
  have "recorded k (boot b s)"
    by (simp add: recorded_def sessions_def by_loop_def accepted_by_def in_hand_def boot_def)
  from exec_invariant [where P = "recorded k", OF recorded_step this assms] show ?thesis .
qed

lemma sessions_numbered:
  assumes "numbered k w"
  shows "map Numero (sessions k w)
    = map (go_int (int_size w)) [1..int (length (sessions k w))]"
proof (cases "k < length (loops w)")
  case False
  with assms show ?thesis by (simp add: numbered_def sessions_def in_hand_def)
next
  case True
  with assms show ?thesis
    by (cases "loops w ! k")
      (simp_all add: numbered_def sessions_def in_hand_def upto_snoc add.commute)
qed

lemma sessions_exec:
  assumes "exec evs (boot b s) = Some w"
  shows "map Numero (sessions k w) = map (go_int b) [1..int (length (sessions k w))]"
proof -
  from int_size_exec [OF assms] have "int_size w = b" by (simp add: boot_def)
  with sessions_numbered [OF numbered_exec [OF assms], of k] show ?thesis by simp
qed

lemma sessions_exact:
  assumes "exec evs (boot b s) = Some w" and "int (length (sessions k w)) < 2 ^ (b - 1)"
  shows "map Numero (sessions k w) = [1..int (length (sessions k w))]"
  using sessions_exec [OF assms(1), of k] go_int_upto [OF assms(2)] by simp

lemma never_continues:
  assumes "step (Accept_returns k a t1 t2) w = Some w'" and "k < length (loops w)"
    and "loops w ! k = Accepting d i h"
  shows "loops w' ! k \<noteq> Select d i"
  using assms by (cases rule: step_cases) simp_all

lemma counted_and_dispatched:
  assumes "k < length (loops w)" and "loops w ! k = WgAdd d i c" and "crash w = None"
  shows "\<exists>w'. exec [Serve_step k, Serve_step k] w = Some w'
     \<and> counter (wg (srv w')) = counter (wg (srv w)) + 1
     \<and> dispatched w' = dispatched w @ [(k, c)] \<and> running w' = running w @ [c]"
  using assms by (simp add: step_def serve_step_def at_loop_def wg_Add_def)

text \<open>
  C10. The error of \<open>newClient\<close> is \<open>nil\<close>. In every world a server can reach, the
  connections the \<open>Accept\<close> of a loop returned are, in order, those of the sessions
  the loop dispatched and of the session it holds, and each of these sessions has
  an ordinal from 1 on (as long as the loop has built no more sessions than the
  target's \<open>int\<close> can count). A return of \<open>Accept\<close> never takes the loop back to the
  \<open>select\<close> with \<open>i\<close> unchanged, which is what \<open>continue\<close> would do; and the session
  a loop holds is counted by \<open>wg.Add(1)\<close> and handed to its worker by the next two
  statements of the loop.
\<close>

theorem newClient_never_fails:
  assumes "exec evs (boot b s) = Some w"
  shows "snd (newClient s0 rw) = None
    \<and> map RemoteAddr (accepted_by k w) = map (\<lambda>c. RemoteAddr (rwc c)) (sessions k w)
    \<and> (int (length (sessions k w)) < 2 ^ (b - 1) \<longrightarrow> (\<forall>c\<in>set (sessions k w). 1 \<le> Numero c))
    \<and> (\<forall>d i h a t1 t2 w'. k < length (loops w) \<and> loops w ! k = Accepting d i h
            \<and> step (Accept_returns k a t1 t2) w = Some w'
          \<longrightarrow> loops w' ! k \<noteq> Select d i)
    \<and> (\<forall>d i c. k < length (loops w) \<and> loops w ! k = WgAdd d i c \<and> crash w = None \<longrightarrow>
          (\<exists>w'. exec [Serve_step k, Serve_step k] w = Some w'
             \<and> counter (wg (srv w')) = counter (wg (srv w)) + 1
             \<and> dispatched w' = dispatched w @ [(k, c)] \<and> running w' = running w @ [c]))"
proof -
  have nil: "snd (newClient s0 rw) = None" by (simp add: newClient_def)
  from recorded_exec [OF assms, of k]
  have rec: "map RemoteAddr (accepted_by k w) = map (\<lambda>c. RemoteAddr (rwc c)) (sessions k w)"
    by (simp add: recorded_def)
  have pos: "int (length (sessions k w)) < 2 ^ (b - 1)
      \<longrightarrow> (\<forall>c\<in>set (sessions k w). 1 \<le> Numero c)"
  proof (intro impI ballI)
    fix c
    assume "int (length (sessions k w)) < 2 ^ (b - 1)" and c: "c \<in> set (sessions k w)"
    from sessions_exact [OF assms this(1)]
    have "set (map Numero (sessions k w)) = set [1..int (length (sessions k w))]" by simp
    with c have "Numero c \<in> set [1..int (length (sessions k w))]" by auto
    then show "1 \<le> Numero c" by simp
  qed
  have cont: "\<forall>d i h a t1 t2 w'. k < length (loops w) \<and> loops w ! k = Accepting d i h
            \<and> step (Accept_returns k a t1 t2) w = Some w'
          \<longrightarrow> loops w' ! k \<noteq> Select d i"
    using never_continues [of k _ _ _ w] by blast
  have go: "\<forall>d i c. k < length (loops w) \<and> loops w ! k = WgAdd d i c \<and> crash w = None \<longrightarrow>
          (\<exists>w'. exec [Serve_step k, Serve_step k] w = Some w'
             \<and> counter (wg (srv w')) = counter (wg (srv w)) + 1
             \<and> dispatched w' = dispatched w @ [(k, c)] \<and> running w' = running w @ [c])"
    using counted_and_dispatched [of k w] by blast
  from nil rec pos cont go show ?thesis by (intro conjI)
qed

theorem newClient_never_fails_witness:
  "map_option (\<lambda>w. (map RemoteAddr (accepted_by 0 w), map Numero (sessions 0 w),
                        int (length (sessions 0 w)) < 2 ^ (64 - 1), loops w = [Select (TCP 0) 0]))
        (exec (start_serving @ [Accept_returns 0 (Connects ''peer'') 0 0])
           (boot 64 (NewServer\<lparr>Handler := Some 0\<rparr>)))
       = Some ([''peer''], [1], True, False)
   \<and> map_option (\<lambda>w. (counter (wg (srv w)), map (\<lambda>p. Numero (snd p)) (dispatched w),
                        map Numero (running w)))
        (exec (start_serving @ [Accept_returns 0 (Connects ''peer'') 0 0, Serve_step 0, Serve_step 0])
           (boot 64 (NewServer\<lparr>Handler := Some 0\<rparr>)))
       = Some (1, [1], [1])"
proof -
  have concrete: ?thesis
    by (simp add: defs sessions_def by_loop_def accepted_by_def in_hand_def)
  obtain w where e: "exec (start_serving @ [Accept_returns 0 (Connects ''peer'') 0 0])
      (boot 64 (NewServer\<lparr>Handler := Some 0\<rparr>)) = Some w"
    by (simp add: defs)
  from newClient_never_fails [OF e] show ?thesis
    by - (rule concrete)
qed

subsection \<open>Ordinals\<close>

text \<open>
  C4, as the code has it. The sessions a loop has built (one loop for every call
  of \<open>Serve\<close> or \<open>ServeTLS\<close>), in the order of the connections its \<open>Accept\<close> returned,
  have the ordinals 1, 2, 3 and so on, each brought into the range of the
  target's \<open>int\<close>, \<open>b\<close> bits wide. As long as the loop has built fewer than
  \<open>2 ^ (b - 1)\<close> sessions, that is no more than the greatest \<open>int\<close>, the ordinals are
  those numbers themselves: strictly increasing, and unique.
\<close>

theorem ordinals_of_one_run:
  assumes "exec evs (boot b s) = Some w"
  shows "map (\<lambda>c. RemoteAddr (rwc c)) (sessions k w) = map RemoteAddr (accepted_by k w)
    \<and> map Numero (sessions k w) = map (go_int b) [1..int (length (sessions k w))]
    \<and> (int (length (sessions k w)) < 2 ^ (b - 1) \<longrightarrow>
         map Numero (sessions k w) = [1..int (length (sessions k w))]
         \<and> sorted_wrt (<) (map Numero (sessions k w))
         \<and> distinct (map Numero (sessions k w)))"
proof -
  from recorded_exec [OF assms, of k]
  have rec: "map (\<lambda>c. RemoteAddr (rwc c)) (sessions k w) = map RemoteAddr (accepted_by k w)"
    by (simp add: recorded_def)
  have exact: "int (length (sessions k w)) < 2 ^ (b - 1) \<longrightarrow>
         map Numero (sessions k w) = [1..int (length (sessions k w))]
         \<and> sorted_wrt (<) (map Numero (sessions k w))
         \<and> distinct (map Numero (sessions k w))"
  proof
    assume "int (length (sessions k w)) < 2 ^ (b - 1)"
    from sessions_exact [OF assms this]
    have eq: "map Numero (sessions k w) = [1..int (length (sessions k w))]" .
    have "sorted_wrt (<) [1..int (length (sessions k w))]" by (rule strict_upto)
    moreover have "distinct [1..int (length (sessions k w))]" by simp
    ultimately show "map Numero (sessions k w) = [1..int (length (sessions k w))]
         \<and> sorted_wrt (<) (map Numero (sessions k w))
         \<and> distinct (map Numero (sessions k w))"
      using eq by simp
  qed
  from rec sessions_exec [OF assms, of k] exact show ?thesis by (intro conjI)
qed

theorem ordinals_of_one_run_witness:
  "map_option (\<lambda>w. (map Numero (sessions 0 w), map RemoteAddr (accepted_by 0 w),
                     int (length (sessions 0 w)) < 2 ^ (64 - 1)))
        (exec (start_serving @ one_peer @ next_Accept
               @ [Accept_returns 0 (Connects ''other'') 3000 4000, Serve_step 0])
           (boot 64 (srv configured))) = Some ([1, 2], [''peer'', ''other''], True)"
proof -
  have concrete: ?thesis
    by (simp add: defs sessions_def by_loop_def accepted_by_def in_hand_def)
  obtain w where e: "exec (start_serving @ one_peer @ next_Accept
               @ [Accept_returns 0 (Connects ''other'') 3000 4000, Serve_step 0])
           (boot 64 (srv configured)) = Some w"
    by (simp add: defs)
  from ordinals_of_one_run [OF e] show ?thesis
    by - (rule concrete)
qed

text \<open>
  C4, as the specification has it, fails: \<open>i\<close> is a local of \<open>serve\<close>. A server
  whose first loop ended on a failing \<open>Accept\<close> and that is served again, on another
  socket, gives the ordinal 1 a second time.
\<close>

theorem ordinal_given_twice:
  "map_option (\<lambda>w. map (\<lambda>p. Numero (snd p)) (dispatched w))
     (exec (start_serving @ one_peer @ next_Accept
            @ [Accept_returns 0 (Fails (ErrOther ''too many open files'')) 0 0,
               Call_Serve (TCP 1), Serve_step 1, Serve_step 1, Serve_step 1, Serve_step 1,
               Accept_returns 1 (Connects ''peer'') 1000 2000, Serve_step 1, Serve_step 1])
        configured) = Some [1, 1]
   \<and> map_option (\<lambda>w. distinct (map (\<lambda>p. Numero (snd p)) (dispatched w)))
     (exec (start_serving @ one_peer @ next_Accept
            @ [Accept_returns 0 (Fails (ErrOther ''too many open files'')) 0 0,
               Call_Serve (TCP 1), Serve_step 1, Serve_step 1, Serve_step 1, Serve_step 1,
               Accept_returns 1 (Connects ''peer'') 1000 2000, Serve_step 1, Serve_step 1])
        configured) = Some False"
  by (simp add: defs)

subsection \<open>The shutdown signal\<close>

lemma blocked_within_mono:
  "list_all (blocked_within S) xs \<Longrightarrow> list_all (blocked_within (insert n S)) xs"
proof (induction xs)
  case Nil
  then show ?case by simp
next
  case (Cons pc xs)
  then show ?case by (cases pc) simp_all
qed

lemma quiet_step:
  assumes "step ev w = Some w'" and "quiet w" and "\<not> rebinds ev"
  shows "quiet w' \<and> accepted w' = accepted w"
  using assms
proof (cases rule: step_cases)
  case (Accept_conn k d i h a t1 t2 rw)
  from assms(2) Accept_conn(3,4) have "sock h \<in> closed_socks w"
    using list_all_nth [of "blocked_within (closed_socks w)" "loops w" k]
    by (simp add: quiet_def)
  with Accept_conn(5) show ?thesis by (simp add: listener_Accept_def)
qed (auto simp: quiet_def bound_closed_def list_all_update blocked_within_mono
    split: option.splits)

lemma quiet_exec:
  "quiet w \<Longrightarrow> list_all (\<lambda>e. \<not> rebinds e) evs \<Longrightarrow> exec evs w = Some w' \<Longrightarrow>
   quiet w' \<and> accepted w' = accepted w"
proof (induction evs arbitrary: w)
  case Nil
  then show ?case by simp
next
  case (Cons ev evs)
  from Cons.prems(3) obtain w1 where s: "step ev w = Some w1" and e: "exec evs w1 = Some w'"
    by (rule exec_Cons_Some)
  from Cons.prems(2) have ev: "\<not> rebinds ev" and rest: "list_all (\<lambda>e. \<not> rebinds e) evs"
    by simp_all
  from quiet_step [OF s Cons.prems(1) ev] have 1: "quiet w1" "accepted w1 = accepted w"
    by simp_all
  from Cons.IH [OF 1(1) rest e] 1(2) show ?case by simp
qed

lemma chDone_step:
  assumes "step ev w = Some w'" and "chDone (srv w)"
  shows "chDone (srv w')"
  using assms by (cases rule: step_cases) simp_all

lemma chDone_exec:
  assumes "chDone (srv w)" and "exec evs w = Some w'"
  shows "chDone (srv w')"
  using exec_invariant [where P = "\<lambda>v. chDone (srv v)", OF chDone_step assms] .

lemma chDone_set_by_Stop:
  assumes "step ev v = Some v'" and "chDone (srv v')" and "\<not> chDone (srv v)"
  shows "\<exists>n. ev = Stop_step n \<and> n < length (stoppers v) \<and> stoppers v ! n = CloseChDone"
  using assms by (cases rule: step_cases) simp_all

lemma Select_sees_chDone:
  assumes "step (Serve_step n) v = Some v'" and "chDone (srv v)" and "n < length (loops v)"
    and "loops v ! n = Select d i"
  shows "loops v' ! n = Closing d"
  using assms by (cases rule: step_cases) simp_all

lemma between_step:
  assumes "step ev w = Some w'"
    and "j < length (stoppers w)" and "stoppers w ! j = CloseChDone"
    and "listener (srv w) = Some cur" and "\<not> chDone (srv w)" and "quiet w"
    and "\<not> rebinds ev \<and> \<not> stops ev"
  shows "j < length (stoppers w') \<and> stoppers w' ! j = CloseChDone
    \<and> listener (srv w') = Some cur \<and> \<not> chDone (srv w') \<and> quiet w'"
proof -
  from quiet_step [OF assms(1,6)] assms(7) have "quiet w'" by simp
  moreover from assms(1-5,7) have "j < length (stoppers w') \<and> stoppers w' ! j = CloseChDone
    \<and> listener (srv w') = Some cur \<and> \<not> chDone (srv w')"
    by (cases rule: step_cases) simp_all
  ultimately show ?thesis by simp
qed

lemma between_exec:
  assumes "j < length (stoppers w)" and "stoppers w ! j = CloseChDone"
    and "listener (srv w) = Some cur" and "\<not> chDone (srv w)" and "quiet w"
    and "list_all (\<lambda>e. \<not> rebinds e \<and> \<not> stops e) evs" and "exec evs w = Some w'"
  shows "j < length (stoppers w') \<and> stoppers w' ! j = CloseChDone
    \<and> listener (srv w') = Some cur \<and> \<not> chDone (srv w') \<and> quiet w'"
  using assms
proof (induction evs arbitrary: w)
  case Nil
  then show ?case by simp
next
  case (Cons ev evs)
  from Cons.prems(7) obtain w1 where s: "step ev w = Some w1" and e: "exec evs w1 = Some w'"
    by (rule exec_Cons_Some)
  from Cons.prems(6) have ev: "\<not> rebinds ev \<and> \<not> stops ev"
    and rest: "list_all (\<lambda>e. \<not> rebinds e \<and> \<not> stops e) evs" by simp_all
  from between_step [OF s Cons.prems(1-5) ev]
  have "j < length (stoppers w1)" "stoppers w1 ! j = CloseChDone" "listener (srv w1) = Some cur"
    "\<not> chDone (srv w1)" "quiet w1" by simp_all
  from Cons.IH [OF this rest e] show ?case .
qed

text \<open>
  C5, as the code has it. A call of \<open>Stop\<close> on a bound server whose signal is not
  set yet, at a moment when every loop that is blocked in \<open>Accept\<close> is blocked on
  the socket of the bound listener or on a closed one: its first statement closes
  the bound listener and leaves \<open>chDone\<close> open; its second statement, whatever the
  other goroutines did in between short of binding a new listener or running a
  statement of \<open>Stop\<close>, closes \<open>chDone\<close>. From then on, under every schedule, \<open>chDone\<close>
  stays closed, and for as long as no new listener is bound no connection is
  accepted. In any world at all, the one statement that can take \<open>chDone\<close> from open
  to closed is that second statement of \<open>Stop\<close>, and a loop that comes to its
  \<open>select\<close> with \<open>chDone\<close> closed goes on to return.
\<close>

theorem Stop_closes_then_signals:
  assumes "crash w = None" and "j < length (stoppers w)" and "stoppers w ! j = ListenerClose"
    and "listener (srv w) = Some cur" and "\<not> chDone (srv w)"
    and "list_all (blocked_within (insert (sock cur) (closed_socks w))) (loops w)"
    and "list_all (\<lambda>e. \<not> rebinds e \<and> \<not> stops e) mid"
    and "exec (Stop_step j # mid @ [Stop_step j]) w = Some w2"
  shows "(\<exists>w1. step (Stop_step j) w = Some w1 \<and> sock cur \<in> closed_socks w1
            \<and> \<not> chDone (srv w1) \<and> stoppers w1 ! j = CloseChDone)
    \<and> chDone (srv w2) \<and> sock cur \<in> closed_socks w2 \<and> stoppers w2 ! j = WgWait
    \<and> (\<forall>evs w3. exec evs w2 = Some w3 \<longrightarrow> chDone (srv w3))
    \<and> (\<forall>evs w3. list_all (\<lambda>e. \<not> rebinds e) evs \<and> exec evs w2 = Some w3
          \<longrightarrow> accepted w3 = accepted w2)
    \<and> (\<forall>ev v v'. step ev v = Some v' \<and> chDone (srv v') \<and> \<not> chDone (srv v)
          \<longrightarrow> (\<exists>n. ev = Stop_step n \<and> n < length (stoppers v)
                 \<and> stoppers v ! n = CloseChDone))
    \<and> (\<forall>n d i v v'. step (Serve_step n) v = Some v' \<and> chDone (srv v)
            \<and> n < length (loops v) \<and> loops v ! n = Select d i
          \<longrightarrow> loops v' ! n = Closing d)"
proof -
  define w1 where "w1 = at_stop j CloseChDone (listener_Close cur w)"
  from assms(1-4) have s1: "step (Stop_step j) w = Some w1"
    by (simp add: step_def stop_step_def w1_def)
  have w1: "j < length (stoppers w1)" "stoppers w1 ! j = CloseChDone"
    "listener (srv w1) = Some cur" "\<not> chDone (srv w1)"
    using assms(2,4,5) by (simp_all add: w1_def listener_Close_def at_stop_def)
  have c1: "sock cur \<in> closed_socks w1"
    by (simp add: w1_def listener_Close_def at_stop_def)
  have q1: "quiet w1"
    using assms(4,6) by (simp add: quiet_def bound_closed_def w1_def listener_Close_def at_stop_def)
  from assms(8) s1 have "exec (mid @ [Stop_step j]) w1 = Some w2" by simp
  then obtain wm where m: "exec mid w1 = Some wm" and l: "step (Stop_step j) wm = Some w2"
    by (cases "exec mid w1") (simp_all add: exec_append split: option.splits)
  from between_exec [OF w1 q1 assms(7) m]
  have wm: "j < length (stoppers wm)" "stoppers wm ! j = CloseChDone"
    "listener (srv wm) = Some cur" "\<not> chDone (srv wm)" "quiet wm" by simp_all
  from l have "crash wm = None" by (simp add: step_def split: if_splits)
  with l wm have w2: "w2 = at_stop j WgWait (wm\<lparr>srv := (srv wm)\<lparr>chDone := True\<rparr>,
      logged := logged wm @ [LogClosing]\<rparr>)"
    by (simp add: step_def stop_step_def)
  with wm have w2': "chDone (srv w2)" "sock cur \<in> closed_socks w2" "stoppers w2 ! j = WgWait"
    by (simp_all add: at_stop_def quiet_def bound_closed_def)
  from w2 wm(3,5) have q2: "quiet w2"
    by (simp add: at_stop_def quiet_def bound_closed_def)
  have stays: "\<forall>evs w3. exec evs w2 = Some w3 \<longrightarrow> chDone (srv w3)"
    using chDone_exec [OF w2'(1)] by blast
  have after: "\<forall>evs w3. list_all (\<lambda>e. \<not> rebinds e) evs \<and> exec evs w2 = Some w3
          \<longrightarrow> accepted w3 = accepted w2"
  proof (intro allI impI)
    fix evs w3
    assume a: "list_all (\<lambda>e. \<not> rebinds e) evs \<and> exec evs w2 = Some w3"
    then have "list_all (\<lambda>e. \<not> rebinds e) evs" and "exec evs w2 = Some w3" by simp_all
    from quiet_exec [OF q2 this] show "accepted w3 = accepted w2" by simp
  qed
  have once: "\<forall>ev v v'. step ev v = Some v' \<and> chDone (srv v') \<and> \<not> chDone (srv v)
          \<longrightarrow> (\<exists>n. ev = Stop_step n \<and> n < length (stoppers v)
                 \<and> stoppers v ! n = CloseChDone)"
    using chDone_set_by_Stop by blast
  have sel: "\<forall>n d i v v'. step (Serve_step n) v = Some v' \<and> chDone (srv v)
            \<and> n < length (loops v) \<and> loops v ! n = Select d i
          \<longrightarrow> loops v' ! n = Closing d"
    using Select_sees_chDone by blast
  from s1 c1 w1 have first: "\<exists>w1. step (Stop_step j) w = Some w1 \<and> sock cur \<in> closed_socks w1
     \<and> \<not> chDone (srv w1) \<and> stoppers w1 ! j = CloseChDone" by (intro exI [of _ w1]) simp
  from first w2' stays after once sel show ?thesis by (intro conjI)
qed

theorem Stop_closes_then_signals_witness:
  "exec (start_serving @ [Call_Stop]) configured
       = Some (blocked_in_Accept\<lparr>stoppers := [ListenerClose]\<rparr>)
   \<and> list_all (blocked_within (insert (sock (TCP 0)) {})) [Accepting (TCP 0) 0 (TCP 0)]
   \<and> list_all (\<lambda>e. \<not> rebinds e \<and> \<not> stops e) [Accept_returns 0 (Connects ''peer'') 0 0]
   \<and> map_option (\<lambda>w. (chDone (srv w), closed_socks w, loops w))
        (exec [Stop_step 0] (blocked_in_Accept\<lparr>stoppers := [ListenerClose]\<rparr>))
       = Some (False, {0}, [Accepting (TCP 0) 0 (TCP 0)])
   \<and> map_option (\<lambda>w. (chDone (srv w), closed_socks w, stoppers w, loops w))
        (exec (Stop_step 0 # [Accept_returns 0 (Connects ''peer'') 0 0] @ [Stop_step 0])
           (blocked_in_Accept\<lparr>stoppers := [ListenerClose]\<rparr>))
       = Some (True, {0}, [WgWait], [Returned (Some ErrClosed)])
   \<and> list_all (\<lambda>e. \<not> rebinds e) [Accept_returns 0 (Connects ''late'') 0 0]
   \<and> exec (Stop_step 0 # [Accept_returns 0 (Connects ''peer'') 0 0] @ [Stop_step 0]
               @ [Accept_returns 0 (Connects ''late'') 0 0])
           (blocked_in_Accept\<lparr>stoppers := [ListenerClose]\<rparr>) = None
   \<and> map_option (\<lambda>w. (chDone (srv w), accepted w, loops w))
        (exec (Stop_step 0 # [Accept_returns 0 (Connects ''peer'') 0 0] @ [Stop_step 0]
               @ [Call_Serve (TCP 1), Serve_step 1, Serve_step 1, Serve_step 1, Serve_step 1])
           (blocked_in_Accept\<lparr>stoppers := [ListenerClose]\<rparr>))
       = Some (True, [], [Returned (Some ErrClosed), Returned None])"
proof -
  have concrete: ?thesis
    by (simp add: defs)
  let ?w = "blocked_in_Accept\<lparr>stoppers := [ListenerClose]\<rparr>"
  have h: "crash ?w = None" "0 < length (stoppers ?w)" "stoppers ?w ! 0 = ListenerClose"
    "listener (srv ?w) = Some (TCP 0)" "\<not> chDone (srv ?w)"
    "list_all (blocked_within (insert (sock (TCP 0)) (closed_socks ?w))) (loops ?w)"
    "list_all (\<lambda>e. \<not> rebinds e \<and> \<not> stops e) [Accept_returns 0 (Connects ''peer'') 0 0]"
    by (simp_all add: defs)
  obtain w2 where e: "exec (Stop_step 0 # [Accept_returns 0 (Connects ''peer'') 0 0]
      @ [Stop_step 0]) ?w = Some w2"
    by (simp add: defs)
  from Stop_closes_then_signals [OF h e] show ?thesis
    by - (rule concrete)
qed

text \<open>
  C5, as the specification has it, fails where a loop is blocked in \<open>Accept\<close> on a
  listener other than the one \<open>Stop\<close> closes. \<open>Serve\<close> is called on socket 0 and
  blocks in \<open>Accept\<close>; \<open>ServeTLS\<close> is called on socket 1 and binds the server to it;
  \<open>Stop\<close> closes the bound listener, on socket 1, and closes \<open>chDone\<close>. The signal is
  set, no connection has been accepted so far, and the \<open>Accept\<close> of the first loop
  still returns the next peer, who gets a session and a worker. The same happens
  where \<open>Serve\<close> binds a new listener after the signal, while a loop is between its
  \<open>select\<close> and its call of \<open>Accept\<close>.
\<close>

theorem connection_accepted_after_signal:
  "map_option (\<lambda>w. (chDone (srv w), closed_socks w, map (\<lambda>p. RemoteAddr (snd p)) (accepted w)))
     (exec (start_serving @ [Call_ServeTLS (TCP 1), Call_Stop, Stop_step 0, Stop_step 0])
        configured) = Some (True, {1}, [])
   \<and> map_option (\<lambda>w. (chDone (srv w), map (\<lambda>p. RemoteAddr (snd p)) (accepted w),
                       map (\<lambda>c. RemoteAddr (rwc c)) (running w)))
     (exec (start_serving @ [Call_ServeTLS (TCP 1), Call_Stop, Stop_step 0, Stop_step 0,
               Accept_returns 0 (Connects ''late'') 0 0, Serve_step 0, Serve_step 0])
        configured) = Some (True, [''late''], [''late''])
   \<and> map_option (\<lambda>w. (chDone (srv w), map (\<lambda>p. RemoteAddr (snd p)) (accepted w)))
     (exec ([Call_Serve (TCP 0), Serve_step 0, Serve_step 0, Serve_step 0,
             Call_Stop, Stop_step 0, Stop_step 0, Call_Serve (TCP 1), Serve_step 0,
             Accept_returns 0 (Connects ''late'') 0 0])
        configured) = Some (True, [''late''])"
  by (simp add: defs)

subsection \<open>\<open>Stop\<close>, twice\<close>

lemma stop_progress_kept:
  "stop_progress pc (s\<lparr>wg := g\<rparr>) = stop_progress pc s"
  "stop_progress pc (s\<lparr>Handler := h\<rparr>) = stop_progress pc s"
  "stop_progress pc s \<Longrightarrow> stop_progress pc (s\<lparr>listener := Some l\<rparr>)"
  "stop_progress pc s \<Longrightarrow> stop_progress pc (s\<lparr>chDone := True\<rparr>)"
  by (cases pc; simp)+

lemma stop_progress_step:
  assumes "step ev w = Some w'"
    and "j < length (stoppers w) \<longrightarrow> stop_progress (stoppers w ! j) (srv w)"
  shows "j < length (stoppers w') \<longrightarrow> stop_progress (stoppers w' ! j) (srv w')"
  using assms
  by (cases rule: step_cases)
    (auto simp: nth_list_update nth_append stop_progress_kept split: if_splits)

lemma stop_progress_exec:
  assumes "exec evs (boot b s) = Some w" and "j < length (stoppers w)"
  shows "stop_progress (stoppers w ! j) (srv w)"
proof -
  let ?P = "\<lambda>v. j < length (stoppers v) \<longrightarrow> stop_progress (stoppers v ! j) (srv v)"
  have "?P (boot b s)" by (simp add: boot_def)
  from exec_invariant [where P = ?P, OF stop_progress_step this assms(1)] assms(2)
  show ?thesis by simp
qed

text \<open>
  C9, as the code has it. \<open>Stop\<close> has no guard. On a server on which a call of
  \<open>Stop\<close> has returned, a second call closes the listener again and then closes
  \<open>chDone\<close> again, which panics: the process is dead.
\<close>

theorem second_Stop_panics:
  assumes "exec evs (boot b s) = Some w" and "j < length (stoppers w)"
    and "stoppers w ! j = Stopped" and "crash w = None"
  shows "\<exists>w'. exec [Call_Stop, Stop_step (length (stoppers w)),
                     Stop_step (length (stoppers w))] w = Some w'
           \<and> crash w' = Some ''close of closed channel'' \<and> (\<forall>ev. step ev w' = None)"
proof -
  from stop_progress_exec [OF assms(1,2)] assms(3)
  obtain cur where "listener (srv w) = Some cur" "chDone (srv w)" by auto
  with assms(4) show ?thesis
    by (simp add: step_def Stop_def stop_step_def listener_Close_def panic_def at_stop_def
        nth_append)
qed

theorem second_Stop_panics_witness:
  "map_option (\<lambda>w. (stoppers w, crash w))
        (exec (start_serving @ stop_until_Wait @ [Stop_step 0]) configured)
       = Some ([Stopped], None)
   \<and> map_option crash
        (exec (start_serving @ stop_until_Wait @ [Stop_step 0]
               @ [Call_Stop, Stop_step 1, Stop_step 1]) configured)
       = Some (Some ''close of closed channel'')"
proof -
  have concrete: ?thesis
    by (simp add: defs)
  obtain w where e: "exec (start_serving @ stop_until_Wait @ [Stop_step 0])
      (boot 64 (srv configured)) = Some w"
    and j: "0 < length (stoppers w)" and s: "stoppers w ! 0 = Stopped" and c: "crash w = None"
    by (simp add: defs)
  from second_Stop_panics [OF e j s c] show ?thesis
    by - (rule concrete)
qed

text \<open>
  C9, as the specification has it, fails: serve, stop, and stop again; the second
  \<open>Stop\<close> ends in the panic of \<open>close\<close> on a closed channel.
\<close>

theorem Stop_twice_aborts:
  "map_option crash
     (exec (start_serving @ stop_until_Wait @ [Stop_step 0]
            @ [Call_Stop, Stop_step 1, Stop_step 1]) configured)
     = Some (Some ''close of closed channel'')"
  by (simp add: defs)

subsection \<open>Waiting for the workers\<close>

lemma sum_list_update_int:
  fixes xs :: "int list"
  shows "k < length xs \<Longrightarrow> sum_list (xs[k := y]) = sum_list xs - xs ! k + y"
proof (induction xs arbitrary: k)
  case Nil
  then show ?case by simp
next
  case (Cons x xs)
  then show ?case by (cases k) simp_all
qed

lemma counted_at:
  "k < length xs \<Longrightarrow>
   sum_list (map counted_unstarted (xs[k := pc]))
     = sum_list (map counted_unstarted xs) - counted_unstarted (xs ! k) + counted_unstarted pc"
  by (simp add: map_update sum_list_update_int)

lemma counted_nonneg: "0 \<le> sum_list (map counted_unstarted xs)"
proof (induction xs)
  case Nil
  then show ?case by simp
next
  case (Cons pc xs)
  then show ?case by (cases pc) simp_all
qed

lemma outstanding_nonneg: "int (length (running w)) \<le> outstanding w"
  using counted_nonneg [of "loops w"] by (simp add: outstanding_def)

lemma tallied_step:
  assumes "step ev w = Some w'" and "tallied w"
  shows "tallied w'"
proof -
  from assms(2) have c: "int (length (running w)) \<le> counter (wg (srv w))"
    using outstanding_nonneg [of w] by (simp add: tallied_def)
  from assms c show ?thesis
    by (cases rule: step_cases) (auto simp: tallied_def outstanding_def counted_at)
qed

text \<open>
  In every world a fresh server can reach, the counter is the number of sessions
  it has counted whose worker has not ended, nobody waits on a zero counter, and
  every dispatched session is running or has finished.
\<close>

lemma tallied_exec:
  assumes "fresh s" and "exec evs (boot b s) = Some w"
  shows "tallied w"
proof -
  from assms(1) have "tallied (boot b s)"
    by (simp add: tallied_def outstanding_def fresh_def boot_def)
  from exec_invariant [where P = tallied, OF tallied_step this assms(2)] show ?thesis .
qed

text \<open>
  When \<open>wg.Wait()\<close> returns, in a world a fresh server can reach, no worker is
  running and every session dispatched so far has finished; and while the counter
  is not zero a caller of \<open>Wait\<close> does not get past it, unless a wake-up was granted
  at an earlier zero.
\<close>

lemma Wait_returns_drained:
  assumes "fresh s" and "exec evs (boot b s) = Some w" and "j < length (stoppers w)"
    and "stoppers w ! j \<noteq> Stopped" and "step (Stop_step j) w = Some w'"
    and "stoppers w' ! j = Stopped"
  shows "counter (wg (srv w)) = 0 \<and> running w' = []
    \<and> length (finished w') = length (dispatched w')"
proof -
  from tallied_exec [OF assms(1,2)] have t: "tallied w" .
  from assms(5,3,4,6) have z: "counter (wg (srv w)) = 0" and r: "running w' = running w"
    "finished w' = finished w" "dispatched w' = dispatched w"
    by (cases rule: step_cases; simp)+
  from t z outstanding_nonneg [of w] have "running w = []" by (simp add: tallied_def)
  with t z r show ?thesis by (simp add: tallied_def)
qed

lemma Wait_blocks:
  assumes "crash w = None" and "j < length (stoppers w)" and "stoppers w ! j = WgWait"
    and "counter (wg (srv w)) \<noteq> 0"
  shows "\<exists>w'. step (Stop_step j) w = Some w' \<and> stoppers w' ! j = WgBlocked
    \<and> (sema (wg (srv w')) = 0 \<longrightarrow> step (Stop_step j) w' = None)"
  using assms by (simp add: step_def stop_step_def at_stop_def)

text \<open>
  C3 fails in the code where the loop holds a session it has not counted yet when
  \<open>Stop\<close> is called: \<open>s.wg.Add(1)\<close> in \<open>serve\<close> and \<open>s.wg.Wait()\<close> in \<open>Stop\<close> are not
  ordered. Loop 0 has dispatched the session of a first peer and has accepted a
  second peer, whose session it holds before \<open>s.wg.Add(1)\<close>. \<open>Stop\<close> closes the
  listener and \<open>chDone\<close> and calls \<open>Wait\<close>, which sleeps on a counter of 1 (a second
  step of \<open>Stop\<close> is not possible there). The first worker ends: the counter is 0
  and the sleeper is granted its wake-up. The loop runs \<open>s.wg.Add(1)\<close> and
  \<open>go cli.serve()\<close> for the second session. \<open>Wait\<close> wakes up, finds the counter at 1
  and panics: the process is dead while the second worker runs. Where \<open>Wait\<close>
  wakes up before the loop runs \<open>s.wg.Add(1)\<close>, \<open>Stop\<close> returns, and the worker of
  the second peer, accepted before \<open>Stop\<close> was called, starts after that.
\<close>

theorem Wait_panics_on_late_Add:
  "map_option (\<lambda>w. (stoppers w, chDone (srv w), counter (wg (srv w)), waiters (wg (srv w)),
                     map Numero (running w), map Numero (in_hand 0 w)))
     (exec (start_serving @ one_peer @ next_Accept
            @ [Accept_returns 0 (Connects ''second'') 3000 4000]
            @ stop_until_Wait @ [Stop_step 0]) configured)
     = Some ([WgBlocked], True, 1, 1, [1], [2])
   \<and> exec (start_serving @ one_peer @ next_Accept
            @ [Accept_returns 0 (Connects ''second'') 3000 4000]
            @ stop_until_Wait @ [Stop_step 0, Stop_step 0]) configured = None
   \<and> map_option (\<lambda>w. (crash w, stoppers w, counter (wg (srv w)),
                       map Numero (running w), map Numero (finished w)))
     (exec (start_serving @ one_peer @ next_Accept
            @ [Accept_returns 0 (Connects ''second'') 3000 4000]
            @ stop_until_Wait
            @ [Stop_step 0, Worker_exit 0, Serve_step 0, Serve_step 0, Stop_step 0]) configured)
     = Some (Some ''sync: WaitGroup is reused before previous Wait has returned'',
             [WgBlocked], 1, [2], [1])
   \<and> map_option (\<lambda>w. (crash w, stoppers w, last (logged w), map Numero (in_hand 0 w)))
     (exec (start_serving @ one_peer @ next_Accept
            @ [Accept_returns 0 (Connects ''second'') 3000 4000]
            @ stop_until_Wait
            @ [Stop_step 0, Worker_exit 0, Stop_step 0]) configured)
     = Some (None, [Stopped], LogAllClosed, [2])
   \<and> map_option (\<lambda>w. (crash w, stoppers w, map Numero (running w)))
     (exec (start_serving @ one_peer @ next_Accept
            @ [Accept_returns 0 (Connects ''second'') 3000 4000]
            @ stop_until_Wait
            @ [Stop_step 0, Worker_exit 0, Stop_step 0, Serve_step 0, Serve_step 0]) configured)
     = Some (None, [Stopped], [2])"
  by (simp add: defs in_hand_def)

end
